theory Spec2Isabelle
  imports Main "HOL-Library.AList"
begin

section \<open>Exceptions and Python sequences\<close>

text \<open>
  The exceptions of \<^verbatim>\<open>main.py\<close>, named as the specification names them, and the
  built-in ones the interpreter raises on its own.
  \<^item> \<open>NotFound\<close>: \<^verbatim>\<open>FileNotFoundError\<close>;
  \<^item> \<open>AlreadyExists\<close>: \<^verbatim>\<open>FileExistsError\<close>;
  \<^item> \<open>OutOfSpace\<close>: \<^verbatim>\<open>RuntimeError("No free blocks available")\<close>;
  \<^item> \<open>NoCapacity\<close>: \<^verbatim>\<open>RuntimeError("No free direct blocks, indirect block needed")\<close>;
  \<^item> \<open>CapacityExceeded\<close>: \<^verbatim>\<open>RuntimeError("Maximum number of files reached")\<close>;
  \<^item> \<open>InvalidArgument\<close>: \<^verbatim>\<open>ValueError("Data size exceeds block size")\<close>;
  \<^item> \<open>IndexError\<close>: a list index out of range;
  \<^item> \<open>ZeroDivisionError\<close>: \<^verbatim>\<open>//\<close> or \<^verbatim>\<open>%\<close> by a block size of 0;
  \<^item> \<open>AttributeError\<close>: an attribute of \<^verbatim>\<open>None\<close> (an empty descriptor slot);
  \<^item> \<open>UnicodeDecodeError\<close>: \<^verbatim>\<open>bytearray.decode()\<close> on bytes that are not UTF-8.
\<close>

datatype error =
    NotFound
  | AlreadyExists
  | OutOfSpace
  | NoCapacity
  | CapacityExceeded
  | InvalidArgument
  | IndexError
  | ZeroDivisionError
  | AttributeError
  | UnicodeDecodeError

text \<open>
  A byte is a \<^typ>\<open>char\<close> (8 bits), a \<^verbatim>\<open>bytes\<close> or \<^verbatim>\<open>bytearray\<close> value a
  \<^typ>\<open>string\<close>. Python's integers are unbounded: \<^typ>\<open>int\<close>.
\<close>

type_synonym bytes = string

definition bytearray :: "nat \<Rightarrow> bytes" where
  "bytearray n = replicate n (CHR 0x00)"

text \<open>
  \<^verbatim>\<open>xs[i]\<close>: a negative index counts from the end, an index outside
  \<^verbatim>\<open>-len(xs) .. len(xs)-1\<close> raises \<^verbatim>\<open>IndexError\<close>.
\<close>

definition py_index :: "nat \<Rightarrow> int \<Rightarrow> nat option" where
  "py_index n i =
     (if 0 \<le> i \<and> i < int n then Some (nat i)
      else if - int n \<le> i \<and> i < 0 then Some (nat (int n + i))
      else None)"

definition py_get :: "'a list \<Rightarrow> int \<Rightarrow> error + 'a" where
  "py_get xs i = (case py_index (length xs) i of None \<Rightarrow> Inl IndexError | Some k \<Rightarrow> Inr (xs ! k))"

definition py_set :: "'a list \<Rightarrow> int \<Rightarrow> 'a \<Rightarrow> error + 'a list" where
  "py_set xs i v =
     (case py_index (length xs) i of None \<Rightarrow> Inl IndexError | Some k \<Rightarrow> Inr (xs[k := v]))"

text \<open>
  Slices never raise: \<^verbatim>\<open>xs[:k]\<close> and \<^verbatim>\<open>xs[k:]\<close> clamp \<^verbatim>\<open>k\<close> to the list, a
  negative \<^verbatim>\<open>k\<close> counting from the end; \<^verbatim>\<open>xs[a:b]\<close> likewise.
\<close>

definition py_bound :: "nat \<Rightarrow> int \<Rightarrow> nat" where
  "py_bound n k = (if k < 0 then nat (int n + k) else min (nat k) n)"

definition py_upto :: "'a list \<Rightarrow> int \<Rightarrow> 'a list" where
  "py_upto xs k = take (py_bound (length xs) k) xs"

definition py_from :: "'a list \<Rightarrow> int \<Rightarrow> 'a list" where
  "py_from xs k = drop (py_bound (length xs) k) xs"

definition py_slice :: "'a list \<Rightarrow> int \<Rightarrow> int \<Rightarrow> 'a list" where
  "py_slice xs a b =
     take (py_bound (length xs) b - py_bound (length xs) a) (drop (py_bound (length xs) a) xs)"

section \<open>BlockStorage\<close>

text \<open>
  \<^verbatim>\<open>block_size\<close> and \<^verbatim>\<open>num_blocks\<close> are natural numbers: the constructor raises on
  a negative block size (\<^verbatim>\<open>bytearray\<close> of a negative length) as soon as there is a
  block to build, and a negative number of blocks builds none.
\<close>

record BlockStorage =
  block_size :: nat
  num_blocks :: nat
  blocks :: "bytes list"
  bitmap :: "int list"

definition BlockStorage_init :: "nat \<Rightarrow> nat \<Rightarrow> BlockStorage" where
  "BlockStorage_init n bs =
     \<lparr>block_size = bs, num_blocks = n,
      blocks = replicate n (bytearray bs), bitmap = replicate n 0\<rparr>"

text \<open>
  \<^verbatim>\<open>allocate_block\<close>: the loop over \<^verbatim>\<open>range(num_blocks)\<close>, \<open>i\<close> the index it is
  at and \<open>n\<close> the number of indices left. It raises before it changes anything.
\<close>

fun allocate_scan :: "int list \<Rightarrow> nat \<Rightarrow> nat \<Rightarrow> error + nat" where
  "allocate_scan bm 0 i = Inl OutOfSpace"
| "allocate_scan bm (Suc n) i =
     (case py_get bm (int i) of
        Inl e \<Rightarrow> Inl e
      | Inr b \<Rightarrow> if b = 0 then Inr i else allocate_scan bm n (Suc i))"

definition allocate_block :: "BlockStorage \<Rightarrow> error + (BlockStorage \<times> int)" where
  "allocate_block st =
     (case allocate_scan (bitmap st) (num_blocks st) 0 of
        Inl e \<Rightarrow> Inl e
      | Inr i \<Rightarrow> Inr (st\<lparr>bitmap := (bitmap st)[i := 1]\<rparr>, int i))"

text \<open>
  \<^verbatim>\<open>free_block\<close> returns the storage as the call leaves it, also when it raises: the
  bitmap is assigned before the block.
\<close>

definition free_block :: "int \<Rightarrow> BlockStorage \<Rightarrow> BlockStorage \<times> (error + unit)" where
  "free_block block_index st =
     (case py_get (bitmap st) block_index of
        Inl e \<Rightarrow> (st, Inl e)
      | Inr b \<Rightarrow>
          if b = 1 then
            (case py_set (bitmap st) block_index 0 of
               Inl e \<Rightarrow> (st, Inl e)
             | Inr bm \<Rightarrow>
                 (case py_set (blocks st) block_index (bytearray (block_size st)) of
                    Inl e \<Rightarrow> (st\<lparr>bitmap := bm\<rparr>, Inl e)
                  | Inr bl \<Rightarrow> (st\<lparr>bitmap := bm, blocks := bl\<rparr>, Inr ())))
          else (st, Inr ()))"

text \<open>
  \<^verbatim>\<open>write_block\<close>: \<^verbatim>\<open>blocks[i][:len(data)] = data\<close> replaces the leading bytes of
  the buffer and keeps the rest. It raises before it changes anything.
\<close>

definition write_block :: "int \<Rightarrow> bytes \<Rightarrow> BlockStorage \<Rightarrow> error + BlockStorage" where
  "write_block block_index data st =
     (if length data > block_size st then Inl InvalidArgument
      else
        (case py_get (blocks st) block_index of
           Inl e \<Rightarrow> Inl e
         | Inr buf \<Rightarrow>
             (case py_set (blocks st) block_index
                     (data @ drop (py_bound (length buf) (int (length data))) buf) of
                Inl e \<Rightarrow> Inl e
              | Inr bl \<Rightarrow> Inr (st\<lparr>blocks := bl\<rparr>))))"

definition read_block :: "int \<Rightarrow> BlockStorage \<Rightarrow> error + bytes" where
  "read_block block_index st = py_get (blocks st) block_index"

text \<open>The shape every constructed storage has, and keeps.\<close>

definition wf_storage :: "BlockStorage \<Rightarrow> bool" where
  "wf_storage st \<longleftrightarrow>
     length (blocks st) = num_blocks st \<and> length (bitmap st) = num_blocks st \<and>
     list_all (\<lambda>buf. length buf = block_size st) (blocks st)"

text \<open>
  A sequence of calls of \<^verbatim>\<open>allocate_block\<close> and \<^verbatim>\<open>free_block\<close>; a call that
  raises leaves the storage as the exception found it, and the sequence goes on.
\<close>

datatype storage_op = Allocate | Free int

definition apply_op :: "storage_op \<Rightarrow> BlockStorage \<Rightarrow> BlockStorage" where
  "apply_op x st =
     (case x of
        Allocate \<Rightarrow> (case allocate_block st of Inl e \<Rightarrow> st | Inr (st', i) \<Rightarrow> st')
      | Free i \<Rightarrow> fst (free_block i st))"

definition run_ops :: "storage_op list \<Rightarrow> BlockStorage \<Rightarrow> BlockStorage" where
  "run_ops xs st = fold apply_op xs st"

section \<open>Decoding\<close>

text \<open>
  \<^verbatim>\<open>file_data.decode()\<close> is UTF-8, strict: it raises on a byte sequence that is not
  well-formed UTF-8 (a stray continuation byte, an overlong form, a surrogate, a code point
  past U+10FFFF, a truncated sequence). A \<^verbatim>\<open>str\<close> is the list of its code points.
\<close>

type_synonym str = "nat list"

definition continuation :: "nat \<Rightarrow> bool" where
  "continuation b \<longleftrightarrow> 0x80 \<le> b \<and> b \<le> 0xBF"

fun decode_one :: "nat list \<Rightarrow> (nat \<times> nat list) option" where
  "decode_one [] = None"
| "decode_one (b0 # r) =
     (if b0 < 0x80 then Some (b0, r)
      else if 0xC2 \<le> b0 \<and> b0 \<le> 0xDF then
        (case r of
           b1 # r1 \<Rightarrow>
             if continuation b1 then Some ((b0 - 0xC0) * 64 + (b1 - 0x80), r1) else None
         | _ \<Rightarrow> None)
      else if 0xE0 \<le> b0 \<and> b0 \<le> 0xEF then
        (case r of
           b1 # b2 # r2 \<Rightarrow>
             if (if b0 = 0xE0 then 0xA0 \<le> b1 \<and> b1 \<le> 0xBF
                 else if b0 = 0xED then 0x80 \<le> b1 \<and> b1 \<le> 0x9F
                 else continuation b1) \<and> continuation b2
             then Some ((b0 - 0xE0) * 4096 + (b1 - 0x80) * 64 + (b2 - 0x80), r2)
             else None
         | _ \<Rightarrow> None)
      else if 0xF0 \<le> b0 \<and> b0 \<le> 0xF4 then
        (case r of
           b1 # b2 # b3 # r3 \<Rightarrow>
             if (if b0 = 0xF0 then 0x90 \<le> b1 \<and> b1 \<le> 0xBF
                 else if b0 = 0xF4 then 0x80 \<le> b1 \<and> b1 \<le> 0x8F
                 else continuation b1) \<and> continuation b2 \<and> continuation b3
             then Some ((b0 - 0xF0) * 262144 + (b1 - 0x80) * 4096 + (b2 - 0x80) * 64
                        + (b3 - 0x80), r3)
             else None
         | _ \<Rightarrow> None)
      else None)"

lemma decode_one_shorter: "decode_one bs = Some (c, r) \<Longrightarrow> length r < length bs"
  by (cases bs) (auto split: if_splits list.splits)

function decode_codes :: "nat list \<Rightarrow> error + str" where
  "decode_codes bs =
     (if bs = [] then Inr []
      else
        (case decode_one bs of
           None \<Rightarrow> Inl UnicodeDecodeError
         | Some (c, r) \<Rightarrow>
             (case decode_codes r of Inl e \<Rightarrow> Inl e | Inr cs \<Rightarrow> Inr (c # cs))))"
  by pat_completeness auto
termination
  by (relation "measure length") (auto dest: decode_one_shorter)

declare decode_codes.simps [simp del]

definition decode :: "bytes \<Rightarrow> error + str" where
  "decode file_data = decode_codes (map of_char file_data)"

section \<open>FileDescriptor\<close>

text \<open>The field \<^verbatim>\<open>size\<close> is \<open>size_f\<close> here.\<close>

record FileDescriptor =
  file_type :: string
  hard_links :: int
  size_f :: int
  direct_blocks :: "int list"
  indirect_block :: int

definition FileDescriptor_init :: "string \<Rightarrow> nat \<Rightarrow> FileDescriptor" where
  "FileDescriptor_init ft max_direct_blocks =
     \<lparr>file_type = ft, hard_links = 1, size_f = 0,
      direct_blocks = replicate max_direct_blocks (- 1), indirect_block = - 1\<rparr>"

text \<open>The default of the constructor's \<^verbatim>\<open>max_direct_blocks\<close>, which \<^verbatim>\<open>create\<close> uses.\<close>

definition max_direct_blocks_default :: nat where
  "max_direct_blocks_default = 10"

text \<open>
  \<^verbatim>\<open>add_block\<close>: the first slot that holds \<^verbatim>\<open>-1\<close> takes the block; without such a
  slot it raises, and has changed nothing.
\<close>

fun fill_first_empty :: "int list \<Rightarrow> int \<Rightarrow> int list option" where
  "fill_first_empty [] block_index = None"
| "fill_first_empty (x # xs) block_index =
     (if x = - 1 then Some (block_index # xs)
      else map_option (Cons x) (fill_first_empty xs block_index))"

definition add_block :: "int \<Rightarrow> FileDescriptor \<Rightarrow> error + FileDescriptor" where
  "add_block block_index d =
     (case fill_first_empty (direct_blocks d) block_index of
        None \<Rightarrow> Inl NoCapacity
      | Some bl \<Rightarrow> Inr (d\<lparr>direct_blocks := bl\<rparr>))"

definition get_blocks :: "FileDescriptor \<Rightarrow> int list" where
  "get_blocks d = filter (\<lambda>block. block \<noteq> - 1) (direct_blocks d)"

section \<open>FileSystem\<close>

text \<open>
  The dictionaries \<^verbatim>\<open>directory\<close> (name to descriptor index) and \<^verbatim>\<open>open_files\<close>
  (handle to descriptor index and offset) are association lists in insertion order, as
  Python's are. A method returns the file system as the call leaves it, also when it raises,
  and beside it the exception or the value returned.
\<close>

record FileSystem =
  block_storage :: BlockStorage
  max_files :: nat
  file_descriptors :: "FileDescriptor option list"
  directory :: "(string \<times> int) list"
  open_files :: "(int \<times> int \<times> int) list"
  next_fd :: int

definition FileSystem_init :: "nat \<Rightarrow> nat \<Rightarrow> nat \<Rightarrow> FileSystem" where
  "FileSystem_init n bs m =
     \<lparr>block_storage = BlockStorage_init n bs, max_files = m,
      file_descriptors = replicate m None, directory = [], open_files = [], next_fd = 0\<rparr>"

definition mkfs :: "nat \<Rightarrow> FileSystem \<Rightarrow> FileSystem \<times> (error + unit)" where
  "mkfs num_descriptors fs =
     (FileSystem_init (num_blocks (block_storage fs)) (block_size (block_storage fs))
        num_descriptors, Inr ())"

definition stat :: "string \<Rightarrow> FileSystem \<Rightarrow> error + FileDescriptor option" where
  "stat name fs =
     (case map_of (directory fs) name of
        None \<Rightarrow> Inl NotFound
      | Some fd_index \<Rightarrow> py_get (file_descriptors fs) fd_index)"

definition ls :: "FileSystem \<Rightarrow> (string \<times> int) list" where
  "ls fs = directory fs"

text \<open>\<^verbatim>\<open>create\<close>: the loop over \<^verbatim>\<open>range(max_files)\<close> for the first empty slot.\<close>

fun create_scan :: "FileDescriptor option list \<Rightarrow> nat \<Rightarrow> nat \<Rightarrow> error + nat" where
  "create_scan fds 0 i = Inl CapacityExceeded"
| "create_scan fds (Suc n) i =
     (case py_get fds (int i) of
        Inl e \<Rightarrow> Inl e
      | Inr slot \<Rightarrow> if slot = None then Inr i else create_scan fds n (Suc i))"

definition create :: "string \<Rightarrow> FileSystem \<Rightarrow> FileSystem \<times> (error + unit)" where
  "create name fs =
     (if map_of (directory fs) name \<noteq> None then (fs, Inl AlreadyExists)
      else
        (case create_scan (file_descriptors fs) (max_files fs) 0 of
           Inl e \<Rightarrow> (fs, Inl e)
         | Inr i \<Rightarrow>
             (fs\<lparr>file_descriptors :=
                   (file_descriptors fs)
                     [i := Some (FileDescriptor_init ''regular'' max_direct_blocks_default)],
                 directory := AList.update name (int i) (directory fs)\<rparr>,
              Inr ())))"

definition open_file :: "string \<Rightarrow> FileSystem \<Rightarrow> FileSystem \<times> (error + int)" where
  "open_file name fs =
     (case map_of (directory fs) name of
        None \<Rightarrow> (fs, Inl NotFound)
      | Some fd_index \<Rightarrow>
          (fs\<lparr>open_files := AList.update (next_fd fs) (fd_index, 0) (open_files fs),
              next_fd := next_fd fs + 1\<rparr>,
           Inr (next_fd fs)))"

definition close :: "int \<Rightarrow> FileSystem \<Rightarrow> FileSystem \<times> (error + unit)" where
  "close fd fs = (fs\<lparr>open_files := AList.delete fd (open_files fs)\<rparr>, Inr ())"

definition seek :: "int \<Rightarrow> int \<Rightarrow> FileSystem \<Rightarrow> FileSystem \<times> (error + unit)" where
  "seek fd offset fs =
     (case map_of (open_files fs) fd of
        Some (fd_index, _) \<Rightarrow>
          (fs\<lparr>open_files := AList.update fd (fd_index, offset) (open_files fs)\<rparr>, Inr ())
      | None \<Rightarrow> (fs, Inl NotFound))"

text \<open>
  The loop of \<^verbatim>\<open>read\<close>: \<open>sz\<close> bytes are still to read from \<open>current_offset\<close> on,
  \<open>file_data\<close> holds what was read. It changes nothing; it returns the bytes and the offset
  it stopped at.
\<close>

function read_loop ::
  "BlockStorage \<Rightarrow> int list \<Rightarrow> int \<Rightarrow> int \<Rightarrow> bytes \<Rightarrow> error + (bytes \<times> int)" where
  "read_loop st blks sz current_offset file_data =
     (if sz > 0 then
        (if block_size st = 0 then Inl ZeroDivisionError
         else
           (case py_get blks (current_offset div int (block_size st)) of
              Inl e \<Rightarrow> Inl e
            | Inr b \<Rightarrow>
                (case read_block b st of
                   Inl e \<Rightarrow> Inl e
                 | Inr block_data \<Rightarrow>
                     read_loop st blks
                       (sz - min sz (int (block_size st) - current_offset mod int (block_size st)))
                       (current_offset
                          + min sz (int (block_size st) - current_offset mod int (block_size st)))
                       (file_data @
                          py_slice block_data (current_offset mod int (block_size st))
                            (current_offset mod int (block_size st)
                               + min sz (int (block_size st)
                                   - current_offset mod int (block_size st)))))))
      else Inr (file_data, current_offset))"
  by pat_completeness auto
termination
proof (relation "measure (\<lambda>(st, blks, sz, current_offset, file_data). nat sz)")
  show "wf (measure (\<lambda>(st, blks, sz, current_offset, file_data). nat sz))"
    by simp
next
  fix st :: BlockStorage and blks :: "int list" and sz current_offset :: int
    and file_data :: bytes and b :: int and block_data :: bytes
  assume "0 < sz" and "block_size st \<noteq> 0"
  moreover have "current_offset mod int (block_size st) < int (block_size st)"
    if "block_size st \<noteq> 0"
    using that by simp
  ultimately show
    "((st, blks,
       sz - min sz (int (block_size st) - current_offset mod int (block_size st)),
       current_offset + min sz (int (block_size st) - current_offset mod int (block_size st)),
       file_data @
         py_slice block_data (current_offset mod int (block_size st))
           (current_offset mod int (block_size st)
              + min sz (int (block_size st) - current_offset mod int (block_size st)))),
      (st, blks, sz, current_offset, file_data))
     \<in> measure (\<lambda>(st, blks, sz, current_offset, file_data). nat sz)"
    by (simp add: min_def)
qed

declare read_loop.simps [simp del]

definition read :: "int \<Rightarrow> int \<Rightarrow> FileSystem \<Rightarrow> FileSystem \<times> (error + str)" where
  "read fd sz fs =
     (case map_of (open_files fs) fd of
        None \<Rightarrow> (fs, Inl NotFound)
      | Some (fd_index, offset) \<Rightarrow>
          (case py_get (file_descriptors fs) fd_index of
             Inl e \<Rightarrow> (fs, Inl e)
           | Inr None \<Rightarrow> (fs, Inl AttributeError)
           | Inr (Some d) \<Rightarrow>
               (case read_loop (block_storage fs) (get_blocks d)
                       (if offset + sz > size_f d then size_f d - offset else sz) offset [] of
                  Inl e \<Rightarrow> (fs, Inl e)
                | Inr (file_data, current_offset) \<Rightarrow>
                    (fs\<lparr>open_files :=
                          AList.update fd (fd_index, current_offset) (open_files fs)\<rparr>,
                     decode file_data))))"

text \<open>
  The body of the loop of \<^verbatim>\<open>write\<close>, in two parts. First the block for the offset:
  when the slot \<^verbatim>\<open>block_index\<close> is past the list or holds \<^verbatim>\<open>-1\<close>, a block is
  allocated and handed to \<^verbatim>\<open>add_block\<close>. The storage and the descriptor are returned as
  the exception leaves them.
\<close>

definition ensure_block ::
  "int \<Rightarrow> BlockStorage \<Rightarrow> FileDescriptor \<Rightarrow> (BlockStorage \<times> FileDescriptor) \<times> (error + unit)"
  where
  "ensure_block block_index st d =
     (case (if block_index \<ge> int (length (direct_blocks d)) then Inr True
            else (case py_get (direct_blocks d) block_index of
                    Inl e \<Rightarrow> Inl e
                  | Inr b \<Rightarrow> Inr (b = - 1))) of
        Inl e \<Rightarrow> ((st, d), Inl e)
      | Inr False \<Rightarrow> ((st, d), Inr ())
      | Inr True \<Rightarrow>
          (case allocate_block st of
             Inl e \<Rightarrow> ((st, d), Inl e)
           | Inr (st1, new_block) \<Rightarrow>
               (case add_block new_block d of
                  Inl e \<Rightarrow> ((st1, d), Inl e)
                | Inr d1 \<Rightarrow> ((st1, d1), Inr ()))))"

text \<open>
  Then the chunk: \<^verbatim>\<open>data[:block_size - block_offset]\<close> goes to
  \<^verbatim>\<open>write_block(fd_obj.direct_blocks[block_index], block_data)\<close>. The result is the
  number of bytes of \<open>data\<close> consumed.
\<close>

definition write_chunk ::
  "BlockStorage \<Rightarrow> FileDescriptor \<Rightarrow> int \<Rightarrow> bytes
     \<Rightarrow> (BlockStorage \<times> FileDescriptor) \<times> (error + nat)"
  where
  "write_chunk st d current_offset data =
     (if block_size st = 0 then ((st, d), Inl ZeroDivisionError)
      else
        (case ensure_block (current_offset div int (block_size st)) st d of
           (sd, Inl e) \<Rightarrow> (sd, Inl e)
         | ((st1, d1), Inr _) \<Rightarrow>
             (case py_get (direct_blocks d1) (current_offset div int (block_size st)) of
                Inl e \<Rightarrow> ((st1, d1), Inl e)
              | Inr target \<Rightarrow>
                  (case write_block target
                          (py_upto data
                             (int (block_size st) - current_offset mod int (block_size st)))
                          st1 of
                     Inl e \<Rightarrow> ((st1, d1), Inl e)
                   | Inr st2 \<Rightarrow>
                       ((st2, d1),
                        Inr (length
                               (py_upto data
                                  (int (block_size st)
                                     - current_offset mod int (block_size st)))))))))"

lemma write_chunk_consumes:
  assumes "write_chunk st d current_offset data = (sd, Inr n)" and "data \<noteq> []"
  shows "0 < n"
proof -
  have bs: "block_size st \<noteq> 0"
    using assms(1) by (auto simp: write_chunk_def split: if_splits)
  then have "0 < int (block_size st) - current_offset mod int (block_size st)"
    by simp
  then have "0 < length (py_upto data
      (int (block_size st) - current_offset mod int (block_size st)))"
    using assms(2) by (simp add: py_upto_def py_bound_def)
  with assms(1) bs show ?thesis
    by (auto simp: write_chunk_def split: sum.splits prod.splits)
qed

function write_loop ::
  "BlockStorage \<Rightarrow> FileDescriptor \<Rightarrow> int \<Rightarrow> bytes
     \<Rightarrow> (BlockStorage \<times> FileDescriptor) \<times> (error + int)"
  where
  "write_loop st d current_offset data =
     (if data \<noteq> [] then
        (case write_chunk st d current_offset data of
           (sd, Inl e) \<Rightarrow> (sd, Inl e)
         | ((st1, d1), Inr n) \<Rightarrow> write_loop st1 d1 (current_offset + int n) (drop n data))
      else ((st, d), Inr current_offset))"
  by pat_completeness auto
termination
  by (relation "measure (\<lambda>(st, d, current_offset, data). length data)")
    (auto dest: write_chunk_consumes [OF sym])

declare write_loop.simps [simp del]

text \<open>
  \<^verbatim>\<open>write\<close> (\<open>write_file\<close> here, as \<^verbatim>\<open>open\<close> is \<open>open_file\<close>):
  \<^verbatim>\<open>fd_obj\<close> is the object in the slot of the descriptor table, so what the
  loop did to it stays in the table when the loop raises; \<^verbatim>\<open>size\<close> and the handle's
  offset are assigned after the loop.
\<close>

definition write_file :: "int \<Rightarrow> bytes \<Rightarrow> FileSystem \<Rightarrow> FileSystem \<times> (error + unit)" where
  "write_file fd data fs =
     (case map_of (open_files fs) fd of
        None \<Rightarrow> (fs, Inl NotFound)
      | Some (fd_index, offset) \<Rightarrow>
          (case py_index (length (file_descriptors fs)) fd_index of
             None \<Rightarrow> (fs, Inl IndexError)
           | Some k \<Rightarrow>
               (case file_descriptors fs ! k of
                  None \<Rightarrow>
                    (fs, Inl (if data \<noteq> [] \<and> block_size (block_storage fs) = 0
                              then ZeroDivisionError else AttributeError))
                | Some fd_obj \<Rightarrow>
                    (case write_loop (block_storage fs) fd_obj offset data of
                       ((st, d), Inl e) \<Rightarrow>
                         (fs\<lparr>block_storage := st,
                             file_descriptors := (file_descriptors fs)[k := Some d]\<rparr>,
                          Inl e)
                     | ((st, d), Inr current_offset) \<Rightarrow>
                         (fs\<lparr>block_storage := st,
                             file_descriptors :=
                               (file_descriptors fs)
                                 [k := Some (d\<lparr>size_f := max (size_f d) current_offset\<rparr>)],
                             open_files :=
                               AList.update fd (fd_index, current_offset) (open_files fs)\<rparr>,
                          Inr ())))))"

definition link :: "string \<Rightarrow> string \<Rightarrow> FileSystem \<Rightarrow> FileSystem \<times> (error + unit)" where
  "link name1 name2 fs =
     (case map_of (directory fs) name1 of
        None \<Rightarrow> (fs, Inl NotFound)
      | Some fd_index \<Rightarrow>
          if map_of (directory fs) name2 \<noteq> None then (fs, Inl AlreadyExists)
          else
            (case py_index (length (file_descriptors fs)) fd_index of
               None \<Rightarrow> (fs, Inl IndexError)
             | Some k \<Rightarrow>
                 (case file_descriptors fs ! k of
                    None \<Rightarrow> (fs, Inl AttributeError)
                  | Some d \<Rightarrow>
                      (fs\<lparr>file_descriptors :=
                            (file_descriptors fs)
                              [k := Some (d\<lparr>hard_links := hard_links d + 1\<rparr>)],
                          directory := AList.update name2 fd_index (directory fs)\<rparr>,
                       Inr ()))))"

text \<open>The loop \<^verbatim>\<open>for block in ...: free_block(block)\<close> of \<^verbatim>\<open>unlink\<close> and \<^verbatim>\<open>truncate\<close>.\<close>

fun free_blocks :: "int list \<Rightarrow> BlockStorage \<Rightarrow> BlockStorage \<times> (error + unit)" where
  "free_blocks [] st = (st, Inr ())"
| "free_blocks (block # rest) st =
     (case free_block block st of
        (st1, Inl e) \<Rightarrow> (st1, Inl e)
      | (st1, Inr _) \<Rightarrow> free_blocks rest st1)"

text \<open>
  \<^verbatim>\<open>unlink\<close>: the name is popped and the link count decremented before anything can
  raise on the blocks; the handles are searched by descriptor index.
\<close>

definition unlink :: "string \<Rightarrow> FileSystem \<Rightarrow> FileSystem \<times> (error + unit)" where
  "unlink name fs =
     (case map_of (directory fs) name of
        None \<Rightarrow> (fs, Inl NotFound)
      | Some fd_index \<Rightarrow>
          (case py_index (length (file_descriptors fs)) fd_index of
             None \<Rightarrow> (fs\<lparr>directory := AList.delete name (directory fs)\<rparr>, Inl IndexError)
           | Some k \<Rightarrow>
               (case file_descriptors fs ! k of
                  None \<Rightarrow>
                    (fs\<lparr>directory := AList.delete name (directory fs)\<rparr>, Inl AttributeError)
                | Some fd_obj \<Rightarrow>
                    if hard_links fd_obj - 1 = 0
                       \<and> fd_index \<notin> set (map (\<lambda>(h, desc). fst desc) (open_files fs))
                    then
                      (case free_blocks (get_blocks fd_obj) (block_storage fs) of
                         (st, Inl e) \<Rightarrow>
                           (fs\<lparr>directory := AList.delete name (directory fs),
                               file_descriptors :=
                                 (file_descriptors fs)
                                   [k := Some (fd_obj\<lparr>hard_links := hard_links fd_obj - 1\<rparr>)],
                               block_storage := st\<rparr>,
                            Inl e)
                       | (st, Inr _) \<Rightarrow>
                           (fs\<lparr>directory := AList.delete name (directory fs),
                               file_descriptors := (file_descriptors fs)[k := None],
                               block_storage := st\<rparr>,
                            Inr ()))
                    else
                      (fs\<lparr>directory := AList.delete name (directory fs),
                         file_descriptors :=
                           (file_descriptors fs)
                             [k := Some (fd_obj\<lparr>hard_links := hard_links fd_obj - 1\<rparr>)]\<rparr>,
                       Inr ()))))"

text \<open>The loop of the growing branch of \<^verbatim>\<open>truncate\<close>, \<open>n\<close> the iterations left.\<close>

fun grow_loop ::
  "nat \<Rightarrow> BlockStorage \<Rightarrow> FileDescriptor \<Rightarrow> (BlockStorage \<times> FileDescriptor) \<times> (error + unit)"
  where
  "grow_loop 0 st d = ((st, d), Inr ())"
| "grow_loop (Suc n) st d =
     (case allocate_block st of
        Inl e \<Rightarrow> ((st, d), Inl e)
      | Inr (st1, new_block) \<Rightarrow>
          (case add_block new_block d of
             Inl e \<Rightarrow> ((st1, d), Inl e)
           | Inr d1 \<Rightarrow> grow_loop n st1 d1))"

text \<open>\<^verbatim>\<open>(size + block_size - 1) // block_size\<close>, for a block size that is not 0.\<close>

definition blocks_for :: "int \<Rightarrow> nat \<Rightarrow> int" where
  "blocks_for sz bs = (sz + int bs - 1) div int bs"

definition truncate :: "string \<Rightarrow> int \<Rightarrow> FileSystem \<Rightarrow> FileSystem \<times> (error + unit)" where
  "truncate name sz fs =
     (case map_of (directory fs) name of
        None \<Rightarrow> (fs, Inl NotFound)
      | Some fd_index \<Rightarrow>
          (case py_index (length (file_descriptors fs)) fd_index of
             None \<Rightarrow> (fs, Inl IndexError)
           | Some k \<Rightarrow>
               (case file_descriptors fs ! k of
                  None \<Rightarrow> (fs, Inl AttributeError)
                | Some fd_obj \<Rightarrow>
                    if sz > size_f fd_obj then
                      (if block_size (block_storage fs) = 0 then (fs, Inl ZeroDivisionError)
                       else
                         (case grow_loop
                                 (nat (blocks_for sz (block_size (block_storage fs))
                                       - int (length (get_blocks fd_obj))))
                                 (block_storage fs) fd_obj of
                            ((st, d), Inl e) \<Rightarrow>
                              (fs\<lparr>block_storage := st,
                                  file_descriptors := (file_descriptors fs)[k := Some d]\<rparr>,
                               Inl e)
                          | ((st, d), Inr _) \<Rightarrow>
                              (fs\<lparr>block_storage := st,
                                  file_descriptors :=
                                    (file_descriptors fs)[k := Some (d\<lparr>size_f := sz\<rparr>)]\<rparr>,
                               Inr ())))
                    else if sz < size_f fd_obj then
                      (if block_size (block_storage fs) = 0 then (fs, Inl ZeroDivisionError)
                       else
                         (case free_blocks
                                 (py_from (get_blocks fd_obj)
                                    (blocks_for sz (block_size (block_storage fs))))
                                 (block_storage fs) of
                            (st, Inl e) \<Rightarrow> (fs\<lparr>block_storage := st\<rparr>, Inl e)
                          | (st, Inr _) \<Rightarrow>
                              (fs\<lparr>block_storage := st,
                                  file_descriptors :=
                                    (file_descriptors fs)
                                      [k := Some (fd_obj
                                         \<lparr>direct_blocks :=
                                            py_upto (direct_blocks fd_obj)
                                              (blocks_for sz (block_size (block_storage fs))),
                                          size_f := sz\<rparr>)]\<rparr>,
                               Inr ())))
                    else (fs, Inr ()))))"

section \<open>Sequences of calls\<close>

text \<open>
  The calls a client can make, and the file system a sequence of them leaves: a call that
  raises leaves the file system as the exception found it, and the client goes on.
\<close>

datatype fs_call =
    Mkfs nat
  | Create string
  | Open string
  | Close int
  | Seek int int
  | Read int int
  | Write int bytes
  | Link string string
  | Unlink string
  | Truncate string int

fun exec_call :: "fs_call \<Rightarrow> FileSystem \<Rightarrow> FileSystem" where
  "exec_call (Mkfs n) fs = fst (mkfs n fs)"
| "exec_call (Create name) fs = fst (create name fs)"
| "exec_call (Open name) fs = fst (open_file name fs)"
| "exec_call (Close fd) fs = fst (close fd fs)"
| "exec_call (Seek fd offset) fs = fst (seek fd offset fs)"
| "exec_call (Read fd sz) fs = fst (read fd sz fs)"
| "exec_call (Write fd data) fs = fst (write_file fd data fs)"
| "exec_call (Link name1 name2) fs = fst (link name1 name2 fs)"
| "exec_call (Unlink name) fs = fst (unlink name fs)"
| "exec_call (Truncate name sz) fs = fst (truncate name sz fs)"

definition exec_calls :: "fs_call list \<Rightarrow> FileSystem \<Rightarrow> FileSystem" where
  "exec_calls cs fs = fold exec_call cs fs"

text \<open>
  What \<^verbatim>\<open>for block in bl: free_block(block)\<close> makes of a storage: the blocks of \<open>bl\<close>
  that the bitmap marks used are marked free and hold zero bytes, every other block is as it
  was.
\<close>

definition freed :: "int list \<Rightarrow> BlockStorage \<Rightarrow> BlockStorage \<Rightarrow> bool" where
  "freed bl st st' \<longleftrightarrow>
     wf_storage st' \<and> num_blocks st' = num_blocks st \<and> block_size st' = block_size st
     \<and> (\<forall>j<num_blocks st. int j \<in> set bl \<and> bitmap st ! j = 1 \<longrightarrow>
            bitmap st' ! j = 0 \<and> blocks st' ! j = bytearray (block_size st))
     \<and> (\<forall>j<num_blocks st. \<not> (int j \<in> set bl \<and> bitmap st ! j = 1) \<longrightarrow>
            bitmap st' ! j = bitmap st ! j \<and> blocks st' ! j = blocks st ! j)"

text \<open>
  The bytes of a file: the buffers of its blocks, in the order of \<^verbatim>\<open>get_blocks()\<close>.
\<close>

definition file_bytes :: "BlockStorage \<Rightarrow> int list \<Rightarrow> bytes" where
  "file_bytes st blks = concat (map (\<lambda>b. blocks st ! nat b) blks)"

text \<open>The number of blocks the bitmap marks free.\<close>

definition free_count :: "BlockStorage \<Rightarrow> nat" where
  "free_count st = length (filter (\<lambda>x. x = 0) (bitmap st))"



section \<open>Properties of BlockStorage\<close>

lemma py_index_less: "py_index n i = Some k \<Longrightarrow> k < n"
  by (auto simp: py_index_def split: if_splits)

lemma py_index_nat [simp]: "k < n \<Longrightarrow> py_index n (int k) = Some k"
  by (simp add: py_index_def)

lemma py_get_nat [simp]: "k < length xs \<Longrightarrow> py_get xs (int k) = Inr (xs ! k)"
  by (simp add: py_get_def)

lemma py_set_nat [simp]: "k < length xs \<Longrightarrow> py_set xs (int k) v = Inr (xs[k := v])"
  by (simp add: py_set_def)

lemma allocate_scan_Inr:
  "allocate_scan bm n i = Inr k \<Longrightarrow> i \<le> k \<and> k < i + n \<and> k < length bm \<and> bm ! k = 0 \<and> (\<forall>j. i \<le> j \<and> j < k \<longrightarrow> bm ! j \<noteq> 0)"
proof (induction n arbitrary: i)
  case 0
  then show ?case by simp
next
  case (Suc n)
  show ?case
  proof (cases "py_get bm (int i)")
    case (Inl e)
    with Suc.prems show ?thesis by simp
  next
    case (Inr b)
    then have il: "i < length bm" and b: "b = bm ! i"
      by (auto simp: py_get_def py_index_def split: if_splits)
    show ?thesis
    proof (cases "b = 0")
      case True
      with Suc.prems Inr il b show ?thesis by simp
    next
      case False
      with Suc.prems Inr have "allocate_scan bm n (Suc i) = Inr k" by simp
      from Suc.IH[OF this] have ih: "Suc i \<le> k" "k < Suc i + n" "k < length bm" "bm ! k = 0"
        "\<forall>j. Suc i \<le> j \<and> j < k \<longrightarrow> bm ! j \<noteq> 0" by auto
      have "bm ! j \<noteq> 0" if "i \<le> j" "j < k" for j
        using that ih(5) False b by (cases "j = i") auto
      with ih show ?thesis by auto
    qed
  qed
qed

lemma allocate_block_blocks:
  "allocate_block st = Inr (st', i) \<Longrightarrow> blocks st' = blocks st \<and> block_size st' = block_size st \<and> num_blocks st' = num_blocks st \<and> length (bitmap st') = length (bitmap st)"
  by (auto simp: allocate_block_def split: sum.splits)

lemma free_block_noop:
  "py_get (bitmap st) i = Inr b \<Longrightarrow> b \<noteq> 1 \<Longrightarrow> free_block i st = (st, Inr ())"
  by (simp add: free_block_def)

lemma free_block_used:
  assumes "wf_storage st" "py_index (num_blocks st) i = Some k" "bitmap st ! k = 1"
  shows "free_block i st =
           (st\<lparr>bitmap := (bitmap st)[k := 0], blocks := (blocks st)[k := bytearray (block_size st)]\<rparr>, Inr ())"
  using assms by (simp add: free_block_def wf_storage_def py_get_def py_set_def)

lemma free_block_shape:
  "block_size (fst (free_block i st)) = block_size st \<and> num_blocks (fst (free_block i st)) = num_blocks st
   \<and> length (bitmap (fst (free_block i st))) = length (bitmap st)
   \<and> length (blocks (fst (free_block i st))) = length (blocks st)"
  by (auto simp: free_block_def py_get_def py_set_def split: sum.splits option.splits)

lemma nth_update_cases: "k < length xs \<Longrightarrow> xs[a := v] ! k = xs ! k \<or> xs[a := v] ! k = v"
  by (cases "a = k") auto

lemma free_block_content:
  "k < length (blocks st) \<Longrightarrow>
   blocks (fst (free_block i st)) ! k = blocks st ! k \<or> blocks (fst (free_block i st)) ! k = bytearray (block_size st)"
  using nth_update_cases[of k "blocks st" _ "bytearray (block_size st)"]
  by (auto simp: free_block_def py_get_def py_set_def split: sum.splits option.splits)

lemma wf_free_block: "wf_storage st \<Longrightarrow> wf_storage (fst (free_block i st))"
  by (auto simp: free_block_def py_get_def py_set_def wf_storage_def list_all_iff bytearray_def
      split: sum.splits option.splits dest!: set_update_subset_insert[THEN subsetD])

lemma wf_allocate_block: "wf_storage st \<Longrightarrow> allocate_block st = Inr (st', i) \<Longrightarrow> wf_storage st'"
  by (auto simp: allocate_block_def wf_storage_def split: sum.splits)

lemma apply_op_shape:
  "block_size (apply_op x st) = block_size st \<and> length (blocks (apply_op x st)) = length (blocks st)"
  by (cases x) (auto simp: apply_op_def free_block_shape dest: allocate_block_blocks split: sum.splits)

lemma apply_op_content:
  "k < length (blocks st) \<Longrightarrow>
   blocks (apply_op x st) ! k = blocks st ! k \<or> blocks (apply_op x st) ! k = bytearray (block_size st)"
  by (cases x) (auto simp: apply_op_def free_block_content dest: allocate_block_blocks split: sum.splits)

lemma run_ops_zero:
  "k < length (blocks st) \<Longrightarrow> blocks st ! k = bytearray (block_size st) \<Longrightarrow>
   blocks (run_ops xs st) ! k = bytearray (block_size st) \<and> block_size (run_ops xs st) = block_size st
   \<and> length (blocks (run_ops xs st)) = length (blocks st)"
proof (induction xs arbitrary: st)
  case Nil
  then show ?case by (simp add: run_ops_def)
next
  case (Cons x xs)
  have s: "block_size (apply_op x st) = block_size st" "length (blocks (apply_op x st)) = length (blocks st)"
    using apply_op_shape by auto
  have "blocks (apply_op x st) ! k = bytearray (block_size (apply_op x st))"
    using apply_op_content[OF Cons.prems(1), of x] Cons.prems(2) s by auto
  from Cons.IH[OF _ this] Cons.prems(1) s show ?case
    by (simp add: run_ops_def)
qed

text \<open>
  C9. \<^verbatim>\<open>free_block\<close> changes nothing when the bitmap does not mark the block used.
  Otherwise it marks the block free and replaces its buffer by \<open>block_size\<close> zero bytes,
  and after any further sequence of \<^verbatim>\<open>allocate_block\<close> and \<^verbatim>\<open>free_block\<close> calls
  the freed block still reads back as \<open>block_size\<close> zero bytes. In a storage that has seen
  nothing but such calls since it was built, every block reads back so.
\<close>

theorem C9_free_block_zero_fills:
  "(py_get (bitmap st) i = Inr b \<and> b \<noteq> 1 \<longrightarrow> free_block i st = (st, Inr ()))
   \<and> (wf_storage st \<and> py_index (num_blocks st) i = Some k \<and> bitmap st ! k = 1 \<longrightarrow>
        free_block i st =
          (st\<lparr>bitmap := (bitmap st)[k := 0],
              blocks := (blocks st)[k := bytearray (block_size st)]\<rparr>, Inr ())
        \<and> (\<forall>ops. read_block (int k) (run_ops ops (fst (free_block i st)))
                    = Inr (bytearray (block_size st))))
   \<and> (j < n \<longrightarrow>
        read_block (int j) (run_ops ops0 (BlockStorage_init n bs)) = Inr (bytearray bs))"
proof (intro conjI impI allI)
  assume "py_get (bitmap st) i = Inr b \<and> b \<noteq> 1"
  then show "free_block i st = (st, Inr ())"
    by (simp add: free_block_noop)
next
  assume a: "wf_storage st \<and> py_index (num_blocks st) i = Some k \<and> bitmap st ! k = 1"
  then show f: "free_block i st =
          (st\<lparr>bitmap := (bitmap st)[k := 0],
              blocks := (blocks st)[k := bytearray (block_size st)]\<rparr>, Inr ())"
    by (simp add: free_block_used)
  fix ops
  let ?st = "fst (free_block i st)"
  have k: "k < length (blocks st)"
    using a py_index_less[of "num_blocks st" i k] by (simp add: wf_storage_def)
  then have "k < length (blocks ?st)" "blocks ?st ! k = bytearray (block_size ?st)"
    by (simp_all add: f)
  from run_ops_zero[OF this, of ops] k
  show "read_block (int k) (run_ops ops ?st) = Inr (bytearray (block_size st))"
    by (simp add: read_block_def f)
next
  assume j: "j < n"
  let ?st = "BlockStorage_init n bs"
  have "j < length (blocks ?st)" "blocks ?st ! j = bytearray (block_size ?st)"
    using j by (simp_all add: BlockStorage_init_def)
  from run_ops_zero[OF this, of ops0] j
  show "read_block (int j) (run_ops ops0 ?st) = Inr (bytearray bs)"
    by (simp add: read_block_def BlockStorage_init_def)
qed

theorem C9_free_block_zero_fills_witness:
  "py_get (bitmap \<lparr>block_size = 2, num_blocks = 2, blocks = [''ab'', bytearray 2], bitmap = [1, 0]\<rparr>) 1
     = Inr 0
   \<and> free_block 1 \<lparr>block_size = 2, num_blocks = 2, blocks = [''ab'', bytearray 2], bitmap = [1, 0]\<rparr>
     = (\<lparr>block_size = 2, num_blocks = 2, blocks = [''ab'', bytearray 2], bitmap = [1, 0]\<rparr>, Inr ())
   \<and> wf_storage \<lparr>block_size = 2, num_blocks = 2, blocks = [''ab'', bytearray 2], bitmap = [1, 0]\<rparr>
   \<and> free_block 0 \<lparr>block_size = 2, num_blocks = 2, blocks = [''ab'', bytearray 2], bitmap = [1, 0]\<rparr>
     = (\<lparr>block_size = 2, num_blocks = 2, blocks = [bytearray 2, bytearray 2], bitmap = [0, 0]\<rparr>,
        Inr ())
   \<and> read_block 0
        (run_ops [Allocate, Free 1, Allocate]
           (fst (free_block 0
              \<lparr>block_size = 2, num_blocks = 2, blocks = [''ab'', bytearray 2], bitmap = [1, 0]\<rparr>)))
     = Inr (bytearray 2)
   \<and> read_block 1 (run_ops [Allocate, Allocate, Free 1] (BlockStorage_init 2 2))
     = Inr (bytearray 2)"
proof -
  let ?st = "\<lparr>block_size = 2, num_blocks = 2, blocks = [''ab'', bytearray 2], bitmap = [1, 0]\<rparr>"
  have g: "py_get (bitmap ?st) 1 = Inr 0"
    by (simp add: py_get_def py_index_def)
  have w: "wf_storage ?st"
    by (simp add: wf_storage_def bytearray_def)
  have i: "py_index (num_blocks ?st) 0 = Some 0"
    by (simp add: py_index_def)
  have u: "bitmap ?st ! 0 = 1"
    by simp
  have n: "(0::int) \<noteq> 1" "(1::nat) < 2"
    by simp_all
  note t1 = C9_free_block_zero_fills[of ?st 1 0 0 0 0 "[]" 0]
  note t0 = C9_free_block_zero_fills[of ?st 0 0 0 1 2 "[Allocate, Allocate, Free 1]" 2]
  from t1 g n have a: "free_block 1 ?st = (?st, Inr ())"
    by blast
  from t0 w i u have b: "free_block 0 ?st =
      (?st\<lparr>bitmap := (bitmap ?st)[0 := 0], blocks := (blocks ?st)[0 := bytearray (block_size ?st)]\<rparr>,
       Inr ())"
    and c: "\<forall>ops. read_block (int 0) (run_ops ops (fst (free_block 0 ?st)))
                  = Inr (bytearray (block_size ?st))"
    by blast+
  from t0 n have d: "read_block (int 1) (run_ops [Allocate, Allocate, Free 1] (BlockStorage_init 2 2))
      = Inr (bytearray 2)"
    by blast
  from c have e: "read_block 0 (run_ops [Allocate, Free 1, Allocate] (fst (free_block 0 ?st)))
      = Inr (bytearray 2)"
    by simp
  from b have b': "free_block 0 ?st =
      (\<lparr>block_size = 2, num_blocks = 2, blocks = [bytearray 2, bytearray 2], bitmap = [0, 0]\<rparr>, Inr ())"
    by simp
  from d have d': "read_block 1 (run_ops [Allocate, Allocate, Free 1] (BlockStorage_init 2 2))
      = Inr (bytearray 2)"
    by simp
  show ?thesis
    using g a w b' e d' by blast
qed

section \<open>Properties of FileSystem\<close>

lemma map_of_update_same [simp]: "map_of (AList.update k v al) k = Some v"
  by (simp add: AList.update_conv')

lemma py_get_past: "int (length xs) \<le> i \<Longrightarrow> py_get xs i = Inl IndexError"
  by (simp add: py_get_def py_index_def)

lemma read_loop_past:
  assumes "0 < sz" "block_size st \<noteq> 0" "int (length blks) * int (block_size st) \<le> p"
  shows "read_loop st blks sz p acc = Inl IndexError"
proof -
  have "int (length blks) * int (block_size st) div int (block_size st) \<le> p div int (block_size st)"
    using assms(2,3) by (intro zdiv_mono1) simp_all
  then have "int (length blks) \<le> p div int (block_size st)"
    using assms(2) by simp
  then show ?thesis
    using assms(1,2) by (subst read_loop.simps) (simp add: py_get_past)
qed

lemma seek_open:
  "map_of (open_files fs) fd = Some (fd_index, offset) \<Longrightarrow>
   seek fd c fs = (fs\<lparr>open_files := AList.update fd (fd_index, c) (open_files fs)\<rparr>, Inr ())"
  by (simp add: seek_def)

lemma write_file_empty:
  assumes "map_of (open_files fs) fd = Some (fd_index, offset)"
    and "py_index (length (file_descriptors fs)) fd_index = Some k"
    and "file_descriptors fs ! k = Some d"
  shows "write_file fd [] fs =
           (fs\<lparr>block_storage := block_storage fs,
               file_descriptors :=
                 (file_descriptors fs)[k := Some (d\<lparr>size_f := max (size_f d) offset\<rparr>)],
               open_files := AList.update fd (fd_index, offset) (open_files fs)\<rparr>,
            Inr ())"
  using assms by (simp add: write_file_def write_loop.simps)

lemma read_past_blocks:
  assumes "map_of (open_files fs) fd = Some (fd_index, p)"
    and "py_index (length (file_descriptors fs)) fd_index = Some k"
    and "file_descriptors fs ! k = Some d"
    and "block_size (block_storage fs) \<noteq> 0"
    and "int (length (get_blocks d)) * int (block_size (block_storage fs)) \<le> p"
    and "p < size_f d" and "0 < sz"
  shows "read fd sz fs = (fs, Inl IndexError)"
proof -
  have "read_loop (block_storage fs) (get_blocks d)
          (if p + sz > size_f d then size_f d - p else sz) p [] = Inl IndexError"
    using assms(4-7) by (intro read_loop_past) simp_all
  then show ?thesis
    using assms(1-3) by (simp add: read_def py_get_def)
qed

lemma empty_write_then_read:
  assumes "map_of (open_files fs) fd = Some (fd_index, offset)"
    and "py_index (length (file_descriptors fs)) fd_index = Some k"
    and "file_descriptors fs ! k = Some d"
    and "size_f d < c"
    and "block_size (block_storage fs) \<noteq> 0"
    and "int (length (get_blocks d)) * int (block_size (block_storage fs)) \<le> p"
    and "p < c" and "0 < sz"
  shows "write_file fd [] (fst (seek fd c fs)) =
           (fs\<lparr>file_descriptors := (file_descriptors fs)[k := Some (d\<lparr>size_f := c\<rparr>)],
               open_files := AList.update fd (fd_index, c) (open_files fs)\<rparr>,
            Inr ())
         \<and> read fd sz (fst (seek fd p (fst (write_file fd [] (fst (seek fd c fs)))))) =
             (fst (seek fd p (fst (write_file fd [] (fst (seek fd c fs))))), Inl IndexError)"
proof -
  define fs1 where "fs1 = fs\<lparr>open_files := AList.update fd (fd_index, c) (open_files fs)\<rparr>"
  define fs2 where "fs2 = fs\<lparr>file_descriptors := (file_descriptors fs)[k := Some (d\<lparr>size_f := c\<rparr>)],
               open_files := AList.update fd (fd_index, c) (open_files fs)\<rparr>"
  define fs3 where "fs3 = fs2\<lparr>open_files := AList.update fd (fd_index, p) (open_files fs2)\<rparr>"
  have k: "k < length (file_descriptors fs)"
    using assms(2) by (auto simp: py_index_def split: if_splits)
  have s1: "seek fd c fs = (fs1, Inr ())"
    unfolding fs1_def using assms(1) by (rule seek_open)
  have "map_of (open_files fs1) fd = Some (fd_index, c)"
    "py_index (length (file_descriptors fs1)) fd_index = Some k"
    "file_descriptors fs1 ! k = Some d"
    using assms(2,3) by (simp_all add: fs1_def)
  from write_file_empty[OF this] assms(4) have w: "write_file fd [] fs1 = (fs2, Inr ())"
    by (simp add: fs1_def fs2_def max_def)
  have "map_of (open_files fs2) fd = Some (fd_index, c)"
    by (simp add: fs2_def)
  then have s3: "seek fd p fs2 = (fs3, Inr ())"
    unfolding fs3_def by (rule seek_open)
  have r: "read fd sz fs3 = (fs3, Inl IndexError)"
  proof (rule read_past_blocks)
    show "map_of (open_files fs3) fd = Some (fd_index, p)"
      by (simp add: fs3_def)
    show "py_index (length (file_descriptors fs3)) fd_index = Some k"
      using assms(2) by (simp add: fs3_def fs2_def)
    show "file_descriptors fs3 ! k = Some (d\<lparr>size_f := c\<rparr>)"
      using k by (simp add: fs3_def fs2_def)
    show "block_size (block_storage fs3) \<noteq> 0"
      using assms(5) by (simp add: fs3_def fs2_def)
    show "int (length (get_blocks (d\<lparr>size_f := c\<rparr>))) * int (block_size (block_storage fs3)) \<le> p"
      using assms(6) by (simp add: fs3_def fs2_def get_blocks_def)
    show "p < size_f (d\<lparr>size_f := c\<rparr>)"
      using assms(7) by simp
    show "0 < sz" by fact
  qed
  have "write_file fd [] (fst (seek fd c fs)) = (fs2, Inr ())
         \<and> read fd sz (fst (seek fd p (fst (write_file fd [] (fst (seek fd c fs)))))) =
             (fst (seek fd p (fst (write_file fd [] (fst (seek fd c fs))))), Inl IndexError)"
    by (simp add: s1 w s3 r)
  then show ?thesis
    unfolding fs2_def .
qed

text \<open>
  C1, at a failing input. With blocks of 4 bytes, \<^verbatim>\<open>write(fd, b'abcd')\<close>,
  \<^verbatim>\<open>seek(fd, 2)\<close>, \<^verbatim>\<open>write(fd, b'XY')\<close>: the second chunk is stored at the start of
  block 0, not at the offset 2 within it, so that the block holds \<^verbatim>\<open>XYcd\<close>; the bytes
  2 and 3 of the file read back as \<^verbatim>\<open>cd\<close> and the bytes 0 and 1, outside the range
  written, have changed.
\<close>

theorem C1_write_ignores_block_offset:
  "blocks (block_storage (exec_calls
      [Create ''f'', Open ''f'', Write 0 ''abcd'', Seek 0 2, Write 0 ''XY'']
      (FileSystem_init 4 4 2))) ! 0 = ''XYcd''
   \<and> snd (read 0 2 (exec_calls
      [Create ''f'', Open ''f'', Write 0 ''abcd'', Seek 0 2, Write 0 ''XY'', Seek 0 2]
      (FileSystem_init 4 4 2))) = decode ''cd''
   \<and> snd (read 0 4 (exec_calls
      [Create ''f'', Open ''f'', Write 0 ''abcd'', Seek 0 2, Write 0 ''XY'', Seek 0 0]
      (FileSystem_init 4 4 2))) = decode ''XYcd''"
  by code_simp

text \<open>
  C3, at a failing input. A created descriptor has \<open>max_direct_blocks_default\<close> slots.
  After \<^verbatim>\<open>write(fd, b'abcd')\<close> and \<^verbatim>\<open>truncate('f', 0)\<close> the list
  \<^verbatim>\<open>direct_blocks\<close> is empty; the next \<^verbatim>\<open>write\<close> allocates a block, finds no slot
  for it and raises, and the block stays marked used.
\<close>

theorem C3_truncate_shortens_direct_blocks:
  "map_option (\<lambda>d. length (direct_blocks d))
     (file_descriptors (exec_calls [Create ''f''] (FileSystem_init 4 4 2)) ! 0)
     = Some max_direct_blocks_default
   \<and> map_option direct_blocks
     (file_descriptors (exec_calls
        [Create ''f'', Open ''f'', Write 0 ''abcd'', Truncate ''f'' 0]
        (FileSystem_init 4 4 2)) ! 0) = Some []
   \<and> snd (write_file 0 ''a'' (exec_calls
        [Create ''f'', Open ''f'', Write 0 ''abcd'', Truncate ''f'' 0, Seek 0 0]
        (FileSystem_init 4 4 2))) = Inl NoCapacity
   \<and> bitmap (block_storage (exec_calls
        [Create ''f'', Open ''f'', Write 0 ''abcd'', Truncate ''f'' 0, Seek 0 0, Write 0 ''a'']
        (FileSystem_init 4 4 2))) = [1, 0, 0, 0]"
  by code_simp

lemma free_block_nat:
  assumes "wf_storage st" "k < num_blocks st"
  shows "free_block (int k) st =
           (if bitmap st ! k = 1
            then st\<lparr>bitmap := (bitmap st)[k := 0],
                    blocks := (blocks st)[k := bytearray (block_size st)]\<rparr>
            else st, Inr ())"
  using assms by (simp add: free_block_def wf_storage_def)

lemma freed_Nil: "wf_storage st \<Longrightarrow> freed [] st st"
  by (simp add: freed_def)

lemma freed_Cons:
  assumes w: "wf_storage st" and k: "k < num_blocks st"
    and st1: "st1 = (if bitmap st ! k = 1
            then st\<lparr>bitmap := (bitmap st)[k := 0],
                    blocks := (blocks st)[k := bytearray (block_size st)]\<rparr>
            else st)"
    and f: "freed bl st1 st'"
  shows "freed (int k # bl) st st'"
proof -
  have len: "length (bitmap st) = num_blocks st" "length (blocks st) = num_blocks st"
    using w by (simp_all add: wf_storage_def)
  have n1: "num_blocks st1 = num_blocks st" "block_size st1 = block_size st"
    by (simp_all add: st1)
  have b1: "bitmap st1 ! j = (if j = k \<and> bitmap st ! k = 1 then 0 else bitmap st ! j)"
    and c1: "blocks st1 ! j = (if j = k \<and> bitmap st ! k = 1 then bytearray (block_size st) else blocks st ! j)"
    if "j < num_blocks st" for j
    using that len by (simp_all add: st1 nth_list_update)
  from f have f1: "wf_storage st'" "num_blocks st' = num_blocks st" "block_size st' = block_size st"
    and f2: "\<And>j. j < num_blocks st \<Longrightarrow> int j \<in> set bl \<Longrightarrow> bitmap st1 ! j = 1 \<Longrightarrow>
            bitmap st' ! j = 0 \<and> blocks st' ! j = bytearray (block_size st)"
    and f3: "\<And>j. j < num_blocks st \<Longrightarrow> \<not> (int j \<in> set bl \<and> bitmap st1 ! j = 1) \<Longrightarrow>
            bitmap st' ! j = bitmap st1 ! j \<and> blocks st' ! j = blocks st1 ! j"
    unfolding freed_def n1 by blast+
  have g2: "bitmap st' ! j = 0 \<and> blocks st' ! j = bytearray (block_size st)"
    if j: "j < num_blocks st" and m: "int j \<in> set (int k # bl)" and u: "bitmap st ! j = 1" for j
  proof (cases "j = k")
    case True
    have "\<not> (int j \<in> set bl \<and> bitmap st1 ! j = 1)"
      using b1[OF j] True u by simp
    from f3[OF j this] b1[OF j] c1[OF j] True u show ?thesis by simp
  next
    case False
    then have "int j \<in> set bl" "bitmap st1 ! j = 1"
      using m u b1[OF j] by simp_all
    from f2[OF j this] show ?thesis .
  qed
  have g3: "bitmap st' ! j = bitmap st ! j \<and> blocks st' ! j = blocks st ! j"
    if j: "j < num_blocks st" and m: "\<not> (int j \<in> set (int k # bl) \<and> bitmap st ! j = 1)" for j
  proof -
    have e: "bitmap st1 ! j = bitmap st ! j" "blocks st1 ! j = blocks st ! j"
      using b1[OF j] c1[OF j] m by auto
    have "\<not> (int j \<in> set bl \<and> bitmap st1 ! j = 1)"
      using m e by auto
    from f3[OF j this] e show ?thesis by simp
  qed
  show ?thesis
    unfolding freed_def using f1 g2 g3 by blast
qed

lemma free_blocks_frees:
  assumes "wf_storage st" "\<forall>b\<in>set bl. 0 \<le> b \<and> b < int (num_blocks st)"
  shows "\<exists>st'. free_blocks bl st = (st', Inr ()) \<and> freed bl st st'"
  using assms
proof (induction bl arbitrary: st)
  case Nil
  then show ?case by (simp add: freed_Nil)
next
  case (Cons b bl)
  from Cons.prems(2) have "0 \<le> b" "b < int (num_blocks st)" by simp_all
  then have "b = int (nat b)" "nat b < num_blocks st"
    by simp_all
  then obtain k where k: "b = int k" "k < num_blocks st"
    by blast
  define st1 where "st1 = (if bitmap st ! k = 1
            then st\<lparr>bitmap := (bitmap st)[k := 0],
                    blocks := (blocks st)[k := bytearray (block_size st)]\<rparr>
            else st)"
  have f: "free_block b st = (st1, Inr ())"
    using free_block_nat[OF Cons.prems(1) k(2)] k(1) by (simp add: st1_def)
  have w1: "wf_storage st1"
    using wf_free_block[OF Cons.prems(1), of b] f by simp
  have "num_blocks st1 = num_blocks st"
    by (simp add: st1_def)
  with Cons.prems(2) have r1: "\<forall>b\<in>set bl. 0 \<le> b \<and> b < int (num_blocks st1)"
    by simp
  from Cons.IH[OF w1 r1] obtain st' where st': "free_blocks bl st1 = (st', Inr ())"
    and fr: "freed bl st1 st'"
    by blast
  have "freed (b # bl) st st'"
    unfolding k(1) using Cons.prems(1) k(2) st1_def fr by (rule freed_Cons)
  with st' f show ?case
    by simp
qed

lemma unlink_absent: "map_of (directory fs) name = None \<Longrightarrow> unlink name fs = (fs, Inl NotFound)"
  by (simp add: unlink_def)

text \<open>
  C5. \<^verbatim>\<open>unlink\<close> of a name that is not in the directory raises \<^verbatim>\<open>FileNotFoundError\<close>
  and changes nothing. Of a name bound to a descriptor it returns normally, removes the
  binding and takes one from \<^verbatim>\<open>hard_links\<close>. When the count reaches 0 and no open
  handle holds the descriptor's index, the slot is cleared and every block of the descriptor
  that the bitmap marks used is freed and zero-filled, the other blocks staying as they were
  (\<open>freed\<close>). Otherwise, and so when the last name goes while a handle is open, the
  descriptor stays in its slot and the storage is untouched.
\<close>

theorem C5_unlink:
  "(map_of (directory fs) name = None \<longrightarrow> unlink name fs = (fs, Inl NotFound))
   \<and> (map_of (directory fs) name = Some fd_index
      \<and> py_index (length (file_descriptors fs)) fd_index = Some k
      \<and> file_descriptors fs ! k = Some d
      \<and> wf_storage (block_storage fs)
      \<and> (\<forall>b\<in>set (get_blocks d). 0 \<le> b \<and> b < int (num_blocks (block_storage fs)))
      \<longrightarrow> (\<exists>st'. freed (get_blocks d) (block_storage fs) st'
             \<and> unlink name fs =
                 (if hard_links d - 1 = 0
                     \<and> fd_index \<notin> set (map (\<lambda>(h, desc). fst desc) (open_files fs))
                  then fs\<lparr>directory := AList.delete name (directory fs),
                          file_descriptors := (file_descriptors fs)[k := None],
                          block_storage := st'\<rparr>
                  else fs\<lparr>directory := AList.delete name (directory fs),
                          file_descriptors :=
                            (file_descriptors fs)
                              [k := Some (d\<lparr>hard_links := hard_links d - 1\<rparr>)]\<rparr>,
                  Inr ())))"
proof (intro conjI impI)
  assume "map_of (directory fs) name = None"
  then show "unlink name fs = (fs, Inl NotFound)"
    by (rule unlink_absent)
next
  assume a: "map_of (directory fs) name = Some fd_index
      \<and> py_index (length (file_descriptors fs)) fd_index = Some k
      \<and> file_descriptors fs ! k = Some d
      \<and> wf_storage (block_storage fs)
      \<and> (\<forall>b\<in>set (get_blocks d). 0 \<le> b \<and> b < int (num_blocks (block_storage fs)))"
  then obtain st' where f: "free_blocks (get_blocks d) (block_storage fs) = (st', Inr ())"
    and fr: "freed (get_blocks d) (block_storage fs) st'"
    using free_blocks_frees by blast
  from a f have "unlink name fs =
                 (if hard_links d - 1 = 0
                     \<and> fd_index \<notin> set (map (\<lambda>(h, desc). fst desc) (open_files fs))
                  then fs\<lparr>directory := AList.delete name (directory fs),
                          file_descriptors := (file_descriptors fs)[k := None],
                          block_storage := st'\<rparr>
                  else fs\<lparr>directory := AList.delete name (directory fs),
                          file_descriptors :=
                            (file_descriptors fs)
                              [k := Some (d\<lparr>hard_links := hard_links d - 1\<rparr>)]\<rparr>,
                  Inr ())"
    by (simp add: unlink_def)
  with fr show "\<exists>st'. freed (get_blocks d) (block_storage fs) st'
             \<and> unlink name fs =
                 (if hard_links d - 1 = 0
                     \<and> fd_index \<notin> set (map (\<lambda>(h, desc). fst desc) (open_files fs))
                  then fs\<lparr>directory := AList.delete name (directory fs),
                          file_descriptors := (file_descriptors fs)[k := None],
                          block_storage := st'\<rparr>
                  else fs\<lparr>directory := AList.delete name (directory fs),
                          file_descriptors :=
                            (file_descriptors fs)
                              [k := Some (d\<lparr>hard_links := hard_links d - 1\<rparr>)]\<rparr>,
                  Inr ())"
    by blast
qed

theorem C5_unlink_witness:
  "map_of (directory (exec_calls [Create ''f'', Open ''f'', Write 0 ''abcd'', Close 0]
      (FileSystem_init 4 4 2))) ''g'' = None
   \<and> snd (unlink ''g'' (exec_calls [Create ''f'', Open ''f'', Write 0 ''abcd'', Close 0]
      (FileSystem_init 4 4 2))) = Inl NotFound
   \<and> map_of (directory (exec_calls [Create ''f'', Open ''f'', Write 0 ''abcd'', Close 0]
      (FileSystem_init 4 4 2))) ''f'' = Some 0
   \<and> snd (unlink ''f'' (exec_calls [Create ''f'', Open ''f'', Write 0 ''abcd'', Close 0]
      (FileSystem_init 4 4 2))) = Inr ()
   \<and> file_descriptors (fst (unlink ''f''
        (exec_calls [Create ''f'', Open ''f'', Write 0 ''abcd'', Close 0]
           (FileSystem_init 4 4 2)))) ! 0 = None
   \<and> bitmap (block_storage (fst (unlink ''f''
        (exec_calls [Create ''f'', Open ''f'', Write 0 ''abcd'', Close 0]
           (FileSystem_init 4 4 2))))) ! 0 = 0
   \<and> map_of (directory (exec_calls [Create ''f'', Open ''f'', Write 0 ''abcd'']
      (FileSystem_init 4 4 2))) ''f'' = Some 0
   \<and> block_storage (fst (unlink ''f''
        (exec_calls [Create ''f'', Open ''f'', Write 0 ''abcd''] (FileSystem_init 4 4 2))))
       = block_storage (exec_calls [Create ''f'', Open ''f'', Write 0 ''abcd'']
           (FileSystem_init 4 4 2))
   \<and> map_option hard_links (file_descriptors (fst (unlink ''f''
        (exec_calls [Create ''f'', Open ''f'', Write 0 ''abcd''] (FileSystem_init 4 4 2)))) ! 0)
       = Some 0"
proof -
  let ?F = "exec_calls [Create ''f'', Open ''f'', Write 0 ''abcd'', Close 0] (FileSystem_init 4 4 2)"
  let ?G = "exec_calls [Create ''f'', Open ''f'', Write 0 ''abcd''] (FileSystem_init 4 4 2)"
  let ?d = "\<lparr>file_type = ''regular'', hard_links = 1, size_f = 4,
            direct_blocks = [0, - 1, - 1, - 1, - 1, - 1, - 1, - 1, - 1, - 1],
            indirect_block = - 1\<rparr>"
  have g: "map_of (directory ?F) ''g'' = None" by code_simp
  have f1: "map_of (directory ?F) ''f'' = Some 0" by code_simp
  have f2: "py_index (length (file_descriptors ?F)) 0 = Some 0" by code_simp
  have f3: "file_descriptors ?F ! 0 = Some ?d" by code_simp
  have f4: "wf_storage (block_storage ?F)" by code_simp
  have f5: "\<forall>b\<in>set (get_blocks ?d). 0 \<le> b \<and> b < int (num_blocks (block_storage ?F))"
    by code_simp
  have f6: "hard_links ?d - 1 = 0 \<and> 0 \<notin> set (map (\<lambda>(h, desc). fst desc) (open_files ?F))"
    by code_simp
  have f7: "0 < num_blocks (block_storage ?F)" "int 0 \<in> set (get_blocks ?d)"
    "bitmap (block_storage ?F) ! 0 = 1" "length (file_descriptors ?F) = 2"
    by code_simp+
  have g1: "map_of (directory ?G) ''f'' = Some 0" by code_simp
  have g2: "py_index (length (file_descriptors ?G)) 0 = Some 0" by code_simp
  have g3: "file_descriptors ?G ! 0 = Some ?d" by code_simp
  have g4: "wf_storage (block_storage ?G)" by code_simp
  have g5: "\<forall>b\<in>set (get_blocks ?d). 0 \<le> b \<and> b < int (num_blocks (block_storage ?G))"
    by code_simp
  have g6: "\<not> (hard_links ?d - 1 = 0 \<and> 0 \<notin> set (map (\<lambda>(h, desc). fst desc) (open_files ?G)))"
    by code_simp
  have g7: "length (file_descriptors ?G) = 2"
    by code_simp
  have a: "snd (unlink ''g'' ?F) = Inl NotFound"
    using C5_unlink[of ?F "''g''" 0 0 ?d] g by simp
  from C5_unlink[of ?F "''f''" 0 0 ?d] f1 f2 f3 f4 f5
  obtain st' where fr: "freed (get_blocks ?d) (block_storage ?F) st'"
    and u: "unlink ''f'' ?F =
              (if hard_links ?d - 1 = 0 \<and> 0 \<notin> set (map (\<lambda>(h, desc). fst desc) (open_files ?F))
               then ?F\<lparr>directory := AList.delete ''f'' (directory ?F),
                       file_descriptors := (file_descriptors ?F)[0 := None],
                       block_storage := st'\<rparr>
               else ?F\<lparr>directory := AList.delete ''f'' (directory ?F),
                       file_descriptors :=
                         (file_descriptors ?F)[0 := Some (?d\<lparr>hard_links := hard_links ?d - 1\<rparr>)]\<rparr>,
               Inr ())"
    by blast
  have u': "unlink ''f'' ?F =
              (?F\<lparr>directory := AList.delete ''f'' (directory ?F),
                       file_descriptors := (file_descriptors ?F)[0 := None],
                       block_storage := st'\<rparr>, Inr ())"
    by (subst u, subst if_P[OF f6], rule refl)
  have b: "snd (unlink ''f'' ?F) = Inr ()"
    by (simp only: u' snd_conv)
  have c: "file_descriptors (fst (unlink ''f'' ?F)) ! 0 = None"
    using f7(4) by (simp add: u')
  have "bitmap st' ! 0 = 0"
    using fr f7(1,2,3) unfolding freed_def by blast
  then have d: "bitmap (block_storage (fst (unlink ''f'' ?F))) ! 0 = 0"
    by (simp add: u')
  from C5_unlink[of ?G "''f''" 0 0 ?d] g1 g2 g3 g4 g5
  obtain st'' where v: "unlink ''f'' ?G =
              (if hard_links ?d - 1 = 0 \<and> 0 \<notin> set (map (\<lambda>(h, desc). fst desc) (open_files ?G))
               then ?G\<lparr>directory := AList.delete ''f'' (directory ?G),
                       file_descriptors := (file_descriptors ?G)[0 := None],
                       block_storage := st''\<rparr>
               else ?G\<lparr>directory := AList.delete ''f'' (directory ?G),
                       file_descriptors :=
                         (file_descriptors ?G)[0 := Some (?d\<lparr>hard_links := hard_links ?d - 1\<rparr>)]\<rparr>,
               Inr ())"
    by blast
  have v': "unlink ''f'' ?G =
              (?G\<lparr>directory := AList.delete ''f'' (directory ?G),
                       file_descriptors :=
                         (file_descriptors ?G)[0 := Some (?d\<lparr>hard_links := hard_links ?d - 1\<rparr>)]\<rparr>,
               Inr ())"
    by (subst v, subst if_not_P[OF g6], rule refl)
  have e: "block_storage (fst (unlink ''f'' ?G)) = block_storage ?G"
    by (simp add: v')
  have h: "map_option hard_links (file_descriptors (fst (unlink ''f'' ?G)) ! 0) = Some 0"
    using g7 by (simp add: v')
  from g a f1 b c d g1 e h show ?thesis
    by blast
qed

lemma update_same: "map_of al k = Some v \<Longrightarrow> AList.update k v al = al"
  by (induction al) (auto split: if_splits)

lemma concat_drop_blocks:
  "\<forall>x\<in>set xs. length x = n \<Longrightarrow> i \<le> length xs \<Longrightarrow> drop (i * n) (concat xs) = concat (drop i xs)"
proof (induction xs arbitrary: i)
  case Nil
  then show ?case by simp
next
  case (Cons x xs)
  show ?case
  proof (cases i)
    case 0
    then show ?thesis by simp
  next
    case (Suc j)
    with Cons show ?thesis by simp
  qed
qed

lemma concat_drop_in_block:
  assumes "\<forall>x\<in>set xs. length x = n" "i < length xs" "off \<le> n"
  shows "drop (i * n + off) (concat xs) = drop off (xs ! i) @ concat (drop (Suc i) xs)"
proof -
  have "drop (i * n + off) (concat xs) = drop off (drop (i * n) (concat xs))"
    by (simp add: add.commute)
  also have "\<dots> = drop off (concat (drop i xs))"
    using concat_drop_blocks[OF assms(1), of i] assms(2) by simp
  also have "drop i xs = xs ! i # drop (Suc i) xs"
    using assms(2) by (simp add: Cons_nth_drop_Suc)
  finally show ?thesis
    using assms by simp
qed

lemma take_drop_step:
  "n \<le> m \<Longrightarrow> take n (drop c l) @ take (m - n) (drop (c + n) l) = take m (drop c l)"
proof -
  assume "n \<le> m"
  then have "take m (drop c l) = take (n + (m - n)) (drop c l)" by simp
  also have "\<dots> = take n (drop c l) @ take (m - n) (drop n (drop c l))"
    by (rule take_add)
  finally show ?thesis by (simp add: add.commute)
qed

lemma read_block_wf:
  "wf_storage st \<Longrightarrow> read_block b st = Inr buf \<Longrightarrow> length buf = block_size st"
  by (auto simp: wf_storage_def read_block_def py_get_def list_all_length
      split: option.splits dest: py_index_less)

lemma py_slice_block:
  assumes "length buf = n" "0 \<le> a" "a < int n" "0 < m" "m \<le> int n - a"
  shows "py_slice buf a (a + m) = take (nat m) (drop (nat a) buf)"
    and "length (py_slice buf a (a + m)) = nat m"
proof -
  have b: "py_bound (length buf) a = nat a" "py_bound (length buf) (a + m) = nat a + nat m"
    using assms by (auto simp: py_bound_def min_def nat_add_distrib)
  show "py_slice buf a (a + m) = take (nat m) (drop (nat a) buf)"
    by (simp add: py_slice_def b)
  then show "length (py_slice buf a (a + m)) = nat m"
    using assms by auto
qed

lemma read_loop_length:
  "wf_storage st \<Longrightarrow> read_loop st blks sz cur acc = Inr (out, cur') \<Longrightarrow>
   length out = length acc + nat sz \<and> cur' = cur + max 0 sz"
proof (induction st blks sz cur acc rule: read_loop.induct)
  case (1 st blks sz cur acc)
  show ?case
  proof (cases "sz > 0")
    case False
    with "1.prems" show ?thesis
      by (simp add: read_loop.simps)
  next
    case True
    let ?bs = "int (block_size st)"
    let ?n = "min sz (?bs - cur mod ?bs)"
    from "1.prems"(2) True have bs: "block_size st \<noteq> 0"
      by (auto simp: read_loop.simps split: if_splits)
    from "1.prems"(2) True bs obtain b where b: "py_get blks (cur div ?bs) = Inr b"
      by (auto simp: read_loop.simps split: sum.splits)
    from "1.prems"(2) True bs b obtain buf where buf: "read_block b st = Inr buf"
      by (auto simp: read_loop.simps split: sum.splits)
    have len: "length buf = block_size st"
      using read_block_wf[OF "1.prems"(1) buf] .
    have m: "0 \<le> cur mod ?bs" "cur mod ?bs < ?bs"
      using bs by simp_all
    have n: "0 < ?n" "?n \<le> ?bs - cur mod ?bs" "?n \<le> sz"
      using True m by simp_all
    have rec: "read_loop st blks (sz - ?n) (cur + ?n)
                 (acc @ py_slice buf (cur mod ?bs) (cur mod ?bs + ?n)) = Inr (out, cur')"
      using "1.prems"(2) True bs b buf by (subst (asm) read_loop.simps) simp
    from "1.IH"[OF True bs b buf "1.prems"(1) rec]
    have "length out = length (acc @ py_slice buf (cur mod ?bs) (cur mod ?bs + ?n)) + nat (sz - ?n)"
      and "cur' = cur + ?n + max 0 (sz - ?n)"
      by simp_all
    moreover have "length (py_slice buf (cur mod ?bs) (cur mod ?bs + ?n)) = nat ?n"
      using py_slice_block(2)[OF len m(1) m(2) n(1) n(2)] .
    ultimately show ?thesis
      using n True by (simp add: nat_diff_distrib max_def)
  qed
qed

lemma read_loop_covered:
  assumes "wf_storage st" "block_size st \<noteq> 0"
    and "\<forall>b\<in>set blks. 0 \<le> b \<and> b < int (num_blocks st)"
    and "0 \<le> cur" "cur + sz \<le> int (length blks) * int (block_size st)"
  shows "read_loop st blks sz cur acc =
           Inr (acc @ take (nat sz) (drop (nat cur) (file_bytes st blks)), cur + max 0 sz)"
  using assms
proof (induction st blks sz cur acc rule: read_loop.induct)
  case (1 st blks sz cur acc)
  show ?case
  proof (cases "sz > 0")
    case False
    then show ?thesis
      by (simp add: read_loop.simps)
  next
    case True
    let ?bs = "int (block_size st)"
    let ?bi = "cur div ?bs"
    let ?bo = "cur mod ?bs"
    let ?n = "min sz (?bs - ?bo)"
    let ?xs = "map (\<lambda>b. blocks st ! nat b) blks"
    note bs = "1.prems"(2)
    have m: "0 \<le> ?bo" "?bo < ?bs"
      using bs by simp_all
    have n: "0 < ?n" "?n \<le> ?bs - ?bo" "?n \<le> sz"
      using True m by simp_all
    have bi0: "0 \<le> ?bi"
      using "1.prems"(4) bs by (simp add: pos_imp_zdiv_nonneg_iff)
    have "cur < int (length blks) * ?bs"
      using True "1.prems"(5) by simp
    have bil: "?bi < int (length blks)"
    proof (rule ccontr)
      assume "\<not> ?bi < int (length blks)"
      then have "int (length blks) * ?bs \<le> ?bi * ?bs"
        by (intro mult_right_mono) simp_all
      also have "\<dots> = cur - ?bo"
        by (simp only: minus_mod_eq_div_mult)
      also have "\<dots> \<le> cur"
        using m by linarith
      finally show False
        using \<open>cur < int (length blks) * ?bs\<close> by simp
    qed
    have g: "py_get blks ?bi = Inr (blks ! nat ?bi)"
      using bi0 bil by (simp add: py_get_def py_index_def)
    let ?b = "blks ! nat ?bi"
    have bin: "?b \<in> set blks"
      using bi0 bil by simp
    then have br: "0 \<le> ?b" "?b < int (num_blocks st)"
      using "1.prems"(3) by simp_all
    have lb: "length (blocks st) = num_blocks st"
      using "1.prems"(1) by (simp add: wf_storage_def)
    have rb: "read_block ?b st = Inr (blocks st ! nat ?b)"
      using br lb by (simp add: read_block_def py_get_def py_index_def)
    let ?buf = "blocks st ! nat ?b"
    have len: "length ?buf = block_size st"
      using read_block_wf[OF "1.prems"(1) rb] .
    have all: "\<forall>x\<in>set ?xs. length x = block_size st"
      using "1.prems"(1,3) by (auto simp: wf_storage_def list_all_length)
    have cur: "nat cur = nat ?bi * block_size st + nat ?bo"
    proof -
      have e: "?bi * ?bs = cur - ?bo"
        by (simp only: minus_mod_eq_div_mult)
      have p: "0 \<le> cur - ?bo"
        using bi0 e by (metis mult_nonneg_nonneg of_nat_0_le_iff)
      have "nat (cur - ?bo) + nat ?bo = nat (cur - ?bo + ?bo)"
        using p m(1) by (simp only: nat_add_distrib)
      then have "nat cur = nat (cur - ?bo) + nat ?bo"
        by simp
      also have "nat (cur - ?bo) = nat (?bi * ?bs)"
        by (simp only: e)
      also have "\<dots> = nat ?bi * block_size st"
        using bi0 by (simp add: nat_mult_distrib)
      finally show ?thesis .
    qed
    have "drop (nat cur) (file_bytes st blks) =
            drop (nat ?bo) (?xs ! nat ?bi) @ concat (drop (Suc (nat ?bi)) ?xs)"
      unfolding file_bytes_def cur using all bi0 bil m
      by (intro concat_drop_in_block) simp_all
    also have "?xs ! nat ?bi = ?buf"
      using bi0 bil by simp
    finally have dr: "drop (nat cur) (file_bytes st blks) =
            drop (nat ?bo) ?buf @ concat (drop (Suc (nat ?bi)) ?xs)" .
    have chunk: "py_slice ?buf ?bo (?bo + ?n) = take (nat ?n) (drop (nat cur) (file_bytes st blks))"
    proof -
      have "nat ?n \<le> length (drop (nat ?bo) ?buf)"
        using n m len by simp
      then have "take (nat ?n) (drop (nat cur) (file_bytes st blks)) = take (nat ?n) (drop (nat ?bo) ?buf)"
        unfolding dr by simp
      with py_slice_block(1)[OF len m(1) m(2) n(1) n(2)] show ?thesis
        by simp
    qed
    have pre: "0 \<le> cur + ?n" "cur + ?n + (sz - ?n) \<le> int (length blks) * ?bs"
      using "1.prems"(4,5) n by simp_all
    have "read_loop st blks sz cur acc =
            read_loop st blks (sz - ?n) (cur + ?n) (acc @ py_slice ?buf ?bo (?bo + ?n))"
      using True bs g rb by (subst read_loop.simps) simp
    also have "\<dots> = Inr ((acc @ py_slice ?buf ?bo (?bo + ?n))
                          @ take (nat (sz - ?n)) (drop (nat (cur + ?n)) (file_bytes st blks)),
                        cur + ?n + max 0 (sz - ?n))"
      using "1.IH"[OF True bs g rb "1.prems"(1) bs "1.prems"(3) pre] .
    also have "(acc @ py_slice ?buf ?bo (?bo + ?n))
                 @ take (nat (sz - ?n)) (drop (nat (cur + ?n)) (file_bytes st blks))
               = acc @ take (nat sz) (drop (nat cur) (file_bytes st blks))"
    proof -
      have "nat ?n \<le> nat sz" using n by simp
      from take_drop_step[OF this, of "nat cur" "file_bytes st blks"]
      show ?thesis
        using n "1.prems"(4) by (simp add: chunk nat_diff_distrib nat_add_distrib)
    qed
    also have "cur + ?n + max 0 (sz - ?n) = cur + max 0 sz"
      using n True by simp
    finally show ?thesis .
  qed
qed

lemma decode_Nil: "decode [] = Inr []"
  by (simp add: decode_def decode_codes.simps)

lemma read_unknown: "map_of (open_files fs) fd = None \<Longrightarrow> read fd sz fs = (fs, Inl NotFound)"
  by (simp add: read_def)

lemma read_unfold:
  assumes "map_of (open_files fs) fd = Some (fd_index, offset)"
    and "py_index (length (file_descriptors fs)) fd_index = Some k"
    and "file_descriptors fs ! k = Some d"
  shows "read fd sz fs =
           (case read_loop (block_storage fs) (get_blocks d)
                   (if offset + sz > size_f d then size_f d - offset else sz) offset [] of
              Inl e \<Rightarrow> (fs, Inl e)
            | Inr (file_data, current_offset) \<Rightarrow>
                (fs\<lparr>open_files := AList.update fd (fd_index, current_offset) (open_files fs)\<rparr>,
                 decode file_data))"
  using assms by (simp add: read_def py_get_def)

lemma read_at_end:
  assumes "map_of (open_files fs) fd = Some (fd_index, offset)"
    and "py_index (length (file_descriptors fs)) fd_index = Some k"
    and "file_descriptors fs ! k = Some d"
    and "size_f d \<le> offset"
  shows "read fd sz fs = (fs, Inr [])"
proof -
  have "(if offset + sz > size_f d then size_f d - offset else sz) \<le> 0"
    using assms(4) by simp
  then have "read_loop (block_storage fs) (get_blocks d)
                   (if offset + sz > size_f d then size_f d - offset else sz) offset []
             = Inr ([], offset)"
    by (subst read_loop.simps) simp
  then show ?thesis
    unfolding read_unfold[OF assms(1-3)]
    by (simp add: decode_Nil update_same[OF assms(1)])
qed

lemma read_any:
  assumes "map_of (open_files fs) fd = Some (fd_index, offset)"
    and "py_index (length (file_descriptors fs)) fd_index = Some k"
    and "file_descriptors fs ! k = Some d"
    and "wf_storage (block_storage fs)"
  shows "(\<exists>e. read fd sz fs = (fs, Inl e))
         \<or> (\<exists>file_data.
               read fd sz fs =
                 (fs\<lparr>open_files :=
                       AList.update fd (fd_index, offset + int (length file_data)) (open_files fs)\<rparr>,
                  decode file_data)
               \<and> int (length file_data) = max 0 (min sz (size_f d - offset))
               \<and> offset + int (length file_data) \<le> max offset (size_f d))"
proof (cases "read_loop (block_storage fs) (get_blocks d)
                   (if offset + sz > size_f d then size_f d - offset else sz) offset []")
  case (Inl e)
  then show ?thesis
    unfolding read_unfold[OF assms(1-3)] by simp
next
  case (Inr r)
  obtain file_data cur' where r: "r = (file_data, cur')"
    by (cases r)
  let ?n = "if offset + sz > size_f d then size_f d - offset else sz"
  from read_loop_length[OF assms(4) Inr[unfolded r]]
  have l: "length file_data = nat ?n" and c: "cur' = offset + max 0 ?n"
    by simp_all
  have n: "?n = min sz (size_f d - offset)"
    by simp
  have il: "int (length file_data) = max 0 (min sz (size_f d - offset))"
    unfolding l n by (simp add: max_def)
  then have cu: "cur' = offset + int (length file_data)"
    using c n by simp
  have le: "offset + int (length file_data) \<le> max offset (size_f d)"
    using il by simp
  have "read fd sz fs =
          (fs\<lparr>open_files := AList.update fd (fd_index, cur') (open_files fs)\<rparr>, decode file_data)"
    unfolding read_unfold[OF assms(1-3)] Inr r by simp
  with il le have "\<exists>file_data.
               read fd sz fs =
                 (fs\<lparr>open_files :=
                       AList.update fd (fd_index, offset + int (length file_data)) (open_files fs)\<rparr>,
                  decode file_data)
               \<and> int (length file_data) = max 0 (min sz (size_f d - offset))
               \<and> offset + int (length file_data) \<le> max offset (size_f d)"
    unfolding cu by (intro exI[of _ file_data]) simp
  then show ?thesis
    by (rule disjI2)
qed

lemma read_covered:
  assumes "map_of (open_files fs) fd = Some (fd_index, offset)"
    and "py_index (length (file_descriptors fs)) fd_index = Some k"
    and "file_descriptors fs ! k = Some d"
    and "wf_storage (block_storage fs)"
    and "block_size (block_storage fs) \<noteq> 0"
    and "\<forall>b\<in>set (get_blocks d). 0 \<le> b \<and> b < int (num_blocks (block_storage fs))"
    and "0 \<le> offset"
    and "size_f d \<le> int (length (get_blocks d)) * int (block_size (block_storage fs))"
  shows "read fd sz fs =
           (fs\<lparr>open_files :=
                 AList.update fd (fd_index, offset + max 0 (min sz (size_f d - offset)))
                   (open_files fs)\<rparr>,
            decode (take (nat (min sz (size_f d - offset)))
                      (drop (nat offset) (file_bytes (block_storage fs) (get_blocks d)))))"
proof -
  let ?n = "if offset + sz > size_f d then size_f d - offset else sz"
  have n: "?n = min sz (size_f d - offset)"
    by simp
  have "offset + ?n \<le> int (length (get_blocks d)) * int (block_size (block_storage fs))"
    using assms(8) by simp
  from read_loop_covered[OF assms(4,5,6,7) this, of "[]"]
  have rl: "read_loop (block_storage fs) (get_blocks d) ?n offset [] =
          Inr ([] @ take (nat ?n) (drop (nat offset) (file_bytes (block_storage fs) (get_blocks d))),
               offset + max 0 ?n)" .
  show ?thesis
    by (subst read_unfold[OF assms(1-3)], subst rl, subst (1 2) n) simp
qed

text \<open>
  C7. \<^verbatim>\<open>read\<close> on an unknown handle raises \<^verbatim>\<open>FileNotFoundError\<close> and changes
  nothing. On an open handle at \<open>offset\<close> of a descriptor \<open>d\<close>: at or past the size it
  returns the empty string and changes nothing. In a well-formed storage it either raises and
  leaves the offset where it was, or it hands \<open>max 0 (min sz (size_f d - offset))\<close> bytes
  to \<^verbatim>\<open>decode()\<close> and advances the offset by exactly that number, never past the size
  from an offset within it. When the blocks of the descriptor cover its size it does the
  latter, and the bytes are those of the file from \<open>offset\<close> on.
\<close>

theorem C7_read:
  "(map_of (open_files fs) fd = None \<longrightarrow> read fd sz fs = (fs, Inl NotFound))
   \<and> (map_of (open_files fs) fd = Some (fd_index, offset)
      \<and> py_index (length (file_descriptors fs)) fd_index = Some k
      \<and> file_descriptors fs ! k = Some d
      \<longrightarrow>
        (size_f d \<le> offset \<longrightarrow> read fd sz fs = (fs, Inr []))
        \<and> (wf_storage (block_storage fs) \<longrightarrow>
             (\<exists>e. read fd sz fs = (fs, Inl e))
             \<or> (\<exists>file_data.
                   read fd sz fs =
                     (fs\<lparr>open_files :=
                           AList.update fd (fd_index, offset + int (length file_data))
                             (open_files fs)\<rparr>,
                      decode file_data)
                   \<and> int (length file_data) = max 0 (min sz (size_f d - offset))
                   \<and> offset + int (length file_data) \<le> max offset (size_f d)))
        \<and> (wf_storage (block_storage fs)
            \<and> block_size (block_storage fs) \<noteq> 0
            \<and> (\<forall>b\<in>set (get_blocks d). 0 \<le> b \<and> b < int (num_blocks (block_storage fs)))
            \<and> 0 \<le> offset
            \<and> size_f d \<le> int (length (get_blocks d)) * int (block_size (block_storage fs))
            \<longrightarrow>
              read fd sz fs =
                (fs\<lparr>open_files :=
                      AList.update fd (fd_index, offset + max 0 (min sz (size_f d - offset)))
                        (open_files fs)\<rparr>,
                 decode (take (nat (min sz (size_f d - offset)))
                           (drop (nat offset)
                              (file_bytes (block_storage fs) (get_blocks d)))))))"
  using read_unknown[of fs fd sz] read_at_end[of fs fd fd_index offset k d sz]
    read_any[of fs fd fd_index offset k d sz] read_covered[of fs fd fd_index offset k d sz]
  by blast

theorem C7_read_witness:
  "map_of (open_files (exec_calls [Create ''f'', Open ''f'', Write 0 ''abcdef'', Seek 0 1]
      (FileSystem_init 4 4 2))) 7 = None
   \<and> snd (read 7 1 (exec_calls [Create ''f'', Open ''f'', Write 0 ''abcdef'', Seek 0 1]
      (FileSystem_init 4 4 2))) = Inl NotFound
   \<and> map_of (open_files (exec_calls [Create ''f'', Open ''f'', Write 0 ''abcdef'', Seek 0 1]
      (FileSystem_init 4 4 2))) 0 = Some (0, 1)
   \<and> map_option size_f (file_descriptors (exec_calls
        [Create ''f'', Open ''f'', Write 0 ''abcdef'', Seek 0 1] (FileSystem_init 4 4 2)) ! 0)
       = Some 6
   \<and> snd (read 0 4 (exec_calls [Create ''f'', Open ''f'', Write 0 ''abcdef'', Seek 0 1]
      (FileSystem_init 4 4 2))) = decode ''bcde''
   \<and> map_of (open_files (fst (read 0 4 (exec_calls
        [Create ''f'', Open ''f'', Write 0 ''abcdef'', Seek 0 1] (FileSystem_init 4 4 2))))) 0
       = Some (0, 5)
   \<and> snd (read 0 9 (exec_calls [Create ''f'', Open ''f'', Write 0 ''abcdef'', Seek 0 1]
      (FileSystem_init 4 4 2))) = decode ''bcdef''
   \<and> map_of (open_files (exec_calls [Create ''f'', Open ''f'', Write 0 ''abcdef'', Seek 0 6]
      (FileSystem_init 4 4 2))) 0 = Some (0, 6)
   \<and> read 0 3 (exec_calls [Create ''f'', Open ''f'', Write 0 ''abcdef'', Seek 0 6]
      (FileSystem_init 4 4 2))
       = (exec_calls [Create ''f'', Open ''f'', Write 0 ''abcdef'', Seek 0 6]
            (FileSystem_init 4 4 2), Inr [])"
proof -
  let ?F = "exec_calls [Create ''f'', Open ''f'', Write 0 ''abcdef'', Seek 0 1] (FileSystem_init 4 4 2)"
  let ?G = "exec_calls [Create ''f'', Open ''f'', Write 0 ''abcdef'', Seek 0 6] (FileSystem_init 4 4 2)"
  let ?d = "\<lparr>file_type = ''regular'', hard_links = 1, size_f = 6,
            direct_blocks = [0, 1, - 1, - 1, - 1, - 1, - 1, - 1, - 1, - 1],
            indirect_block = - 1\<rparr>"
  have u: "map_of (open_files ?F) 7 = None" by code_simp
  have f1: "map_of (open_files ?F) 0 = Some (0, 1)" by code_simp
  have f2: "py_index (length (file_descriptors ?F)) 0 = Some 0" by code_simp
  have f3: "file_descriptors ?F ! 0 = Some ?d" by code_simp
  have f4: "wf_storage (block_storage ?F)" by code_simp
  have f5: "block_size (block_storage ?F) \<noteq> 0" by code_simp
  have f6: "\<forall>b\<in>set (get_blocks ?d). 0 \<le> b \<and> b < int (num_blocks (block_storage ?F))"
    by code_simp
  have f7: "(0::int) \<le> 1" by simp
  have f8: "size_f ?d \<le> int (length (get_blocks ?d)) * int (block_size (block_storage ?F))"
    by code_simp
  have g1: "map_of (open_files ?G) 0 = Some (0, 6)" by code_simp
  have g2: "py_index (length (file_descriptors ?G)) 0 = Some 0" by code_simp
  have g3: "file_descriptors ?G ! 0 = Some ?d" by code_simp
  have g4: "size_f ?d \<le> 6" by simp
  have b4: "take (nat (min 4 (size_f ?d - 1)))
              (drop (nat 1) (file_bytes (block_storage ?F) (get_blocks ?d))) = ''bcde''"
    by code_simp
  have b9: "take (nat (min 9 (size_f ?d - 1)))
              (drop (nat 1) (file_bytes (block_storage ?F) (get_blocks ?d))) = ''bcdef''"
    by code_simp
  have a: "snd (read 7 1 ?F) = Inl NotFound"
    using C7_read[of ?F 7 1 0 0 0 ?d] u by simp
  have r4: "read 0 4 ?F =
          (?F\<lparr>open_files :=
                AList.update 0 (0, 1 + max 0 (min 4 (size_f ?d - 1))) (open_files ?F)\<rparr>,
           decode (take (nat (min 4 (size_f ?d - 1)))
                     (drop (nat 1) (file_bytes (block_storage ?F) (get_blocks ?d)))))"
    using C7_read[of ?F 0 4 0 1 0 ?d] f1 f2 f3 f4 f5 f6 f7 f8 by blast
  have r9: "read 0 9 ?F =
          (?F\<lparr>open_files :=
                AList.update 0 (0, 1 + max 0 (min 9 (size_f ?d - 1))) (open_files ?F)\<rparr>,
           decode (take (nat (min 9 (size_f ?d - 1)))
                     (drop (nat 1) (file_bytes (block_storage ?F) (get_blocks ?d)))))"
    using C7_read[of ?F 0 9 0 1 0 ?d] f1 f2 f3 f4 f5 f6 f7 f8 by blast
  have b: "snd (read 0 4 ?F) = decode ''bcde''"
    by (simp only: r4 snd_conv b4)
  have c: "map_of (open_files (fst (read 0 4 ?F))) 0 = Some (0, 5)"
    by (simp add: r4)
  have d: "snd (read 0 9 ?F) = decode ''bcdef''"
    by (simp only: r9 snd_conv b9)
  have e: "read 0 3 ?G = (?G, Inr [])"
    using C7_read[of ?G 0 3 0 6 0 ?d] g1 g2 g3 g4 by blast
  have s: "map_option size_f (file_descriptors ?F ! 0) = Some 6"
    by (simp add: f3)
  from u a f1 s b c d g1 e show ?thesis
    by blast
qed

lemma allocate_scan_cases:
  "i + n \<le> length bm \<Longrightarrow>
   (allocate_scan bm n i = Inl OutOfSpace \<and> (\<forall>j. i \<le> j \<and> j < i + n \<longrightarrow> bm ! j \<noteq> 0))
   \<or> (\<exists>k. allocate_scan bm n i = Inr k)"
proof (induction n arbitrary: i)
  case 0
  then show ?case by simp
next
  case (Suc n)
  have g: "py_get bm (int i) = Inr (bm ! i)"
    using Suc.prems by simp
  show ?case
  proof (cases "bm ! i = 0")
    case True
    then show ?thesis using g by simp
  next
    case False
    from Suc.IH[of "Suc i"] Suc.prems
    consider "allocate_scan bm n (Suc i) = Inl OutOfSpace"
      "\<forall>j. Suc i \<le> j \<and> j < Suc i + n \<longrightarrow> bm ! j \<noteq> 0"
      | k where "allocate_scan bm n (Suc i) = Inr k"
      by auto
    then show ?thesis
    proof cases
      case 1
      have "bm ! j \<noteq> 0" if "i \<le> j" "j < i + Suc n" for j
        using that 1(2) False by (cases "j = i") auto
      with 1(1) g False show ?thesis by simp
    next
      case 2
      with g False show ?thesis by simp
    qed
  qed
qed

lemma filter_update_dec:
  "k < length bm \<Longrightarrow> bm ! k = (0::int) \<Longrightarrow>
   Suc (length (filter (\<lambda>x. x = 0) (bm[k := 1]))) = length (filter (\<lambda>x. x = 0) bm)"
proof (induction bm arbitrary: k)
  case Nil
  then show ?case by simp
next
  case (Cons x bm)
  then show ?case by (cases k) auto
qed

lemma filter_zero_pos: "0 < length (filter (\<lambda>x. x = (0::int)) bm) \<Longrightarrow> \<exists>j<length bm. bm ! j = 0"
  by (metis (mono_tags, lifting) filter_False in_set_conv_nth length_greater_0_conv)

lemma allocate_block_free:
  assumes "wf_storage st" "0 < free_count st"
  shows "\<exists>k. k < num_blocks st \<and> bitmap st ! k = 0
            \<and> allocate_block st = Inr (st\<lparr>bitmap := (bitmap st)[k := 1]\<rparr>, int k)
            \<and> Suc (free_count (st\<lparr>bitmap := (bitmap st)[k := 1]\<rparr>)) = free_count st"
proof -
  have len: "length (bitmap st) = num_blocks st"
    using assms(1) by (simp add: wf_storage_def)
  obtain j where j: "j < num_blocks st" "bitmap st ! j = 0"
    using filter_zero_pos[of "bitmap st"] assms(2) len by (auto simp: free_count_def)
  from allocate_scan_cases[of 0 "num_blocks st" "bitmap st"] len j
  obtain k where k: "allocate_scan (bitmap st) (num_blocks st) 0 = Inr k"
    by auto
  from allocate_scan_Inr[OF k] have "k < num_blocks st" "bitmap st ! k = 0"
    using len by simp_all
  with k filter_update_dec[of k "bitmap st"] len show ?thesis
    by (auto simp: allocate_block_def free_count_def)
qed

lemma allocate_block_full:
  assumes "wf_storage st" "free_count st = 0"
  shows "allocate_block st = Inl OutOfSpace"
proof -
  have len: "length (bitmap st) = num_blocks st"
    using assms(1) by (simp add: wf_storage_def)
  have "\<forall>x\<in>set (bitmap st). x \<noteq> 0"
    using assms(2) by (auto simp: free_count_def filter_empty_conv)
  then have nz: "bitmap st ! j \<noteq> 0" if "j < num_blocks st" for j
    using that len by simp
  from allocate_scan_cases[of 0 "num_blocks st" "bitmap st"] len
  consider "allocate_scan (bitmap st) (num_blocks st) 0 = Inl OutOfSpace"
    | k where "allocate_scan (bitmap st) (num_blocks st) 0 = Inr k"
    by auto
  then show ?thesis
  proof cases
    case 1
    then show ?thesis by (simp add: allocate_block_def)
  next
    case 2
    from allocate_scan_Inr[OF 2] nz show ?thesis by auto
  qed
qed

lemma fill_first_empty_append:
  "- 1 \<notin> set bl \<Longrightarrow>
   fill_first_empty (bl @ replicate m (- 1)) b =
     (if m = 0 then None else Some (bl @ b # replicate (m - 1) (- 1)))"
proof (induction bl)
  case Nil
  then show ?case by (cases m) simp_all
next
  case (Cons x bl)
  then show ?case by auto
qed

lemma add_block_slot:
  assumes "direct_blocks d = bl @ replicate (Suc m) (- 1)" "- 1 \<notin> set bl"
  shows "add_block b d = Inr (d\<lparr>direct_blocks := bl @ b # replicate m (- 1)\<rparr>)"
  using fill_first_empty_append[OF assms(2), of "Suc m" b] assms(1)
  by (simp add: add_block_def)

lemma add_block_full:
  assumes "- 1 \<notin> set (direct_blocks d)"
  shows "add_block b d = Inl NoCapacity"
  using fill_first_empty_append[OF assms, of 0 b]
  by (simp add: add_block_def)

lemma get_blocks_append:
  "- 1 \<notin> set bl \<Longrightarrow> direct_blocks d = bl @ replicate m (- 1) \<Longrightarrow> get_blocks d = bl"
  by (auto simp: get_blocks_def filter_id_conv)




lemma wf_storage_mark: "wf_storage st \<Longrightarrow> wf_storage (st\<lparr>bitmap := (bitmap st)[k := v]\<rparr>)"
  by (simp add: wf_storage_def)


lemma blocks_for_ceiling:
  assumes "bs \<noteq> 0"
  shows "(blocks_for sz bs - 1) * int bs < sz \<and> sz \<le> blocks_for sz bs * int bs"
proof -
  let ?a = "sz + int bs - 1"
  have m: "0 \<le> ?a mod int bs" "?a mod int bs < int bs"
    using assms by simp_all
  have "blocks_for sz bs * int bs = ?a - ?a mod int bs"
    unfolding blocks_for_def by (simp only: minus_mod_eq_div_mult)
  with m show ?thesis
    by (simp add: algebra_simps)
qed











lemma add_block_fields:
  "add_block b d = Inr d' \<Longrightarrow>
   size_f d' = size_f d \<and> hard_links d' = hard_links d \<and> file_type d' = file_type d
   \<and> indirect_block d' = indirect_block d"
  by (auto simp: add_block_def split: option.splits)

lemma allocate_block_frame:
  "allocate_block st = Inr (st', i) \<Longrightarrow>
   blocks st' = blocks st \<and> block_size st' = block_size st \<and> num_blocks st' = num_blocks st"
  by (auto simp: allocate_block_def split: sum.splits)

lemma ensure_block_frame:
  "ensure_block bi st d = ((st', d'), r) \<Longrightarrow>
   blocks st' = blocks st \<and> block_size st' = block_size st \<and> num_blocks st' = num_blocks st
   \<and> size_f d' = size_f d \<and> hard_links d' = hard_links d \<and> file_type d' = file_type d
   \<and> indirect_block d' = indirect_block d"
  by (auto simp: ensure_block_def split: sum.splits if_splits bool.splits
      dest: allocate_block_frame add_block_fields)

lemma write_block_frame:
  "write_block b data st = Inr st' \<Longrightarrow>
   bitmap st' = bitmap st \<and> block_size st' = block_size st \<and> num_blocks st' = num_blocks st"
  by (auto simp: write_block_def split: sum.splits if_splits)

lemma write_chunk_cases:
  assumes "write_chunk st d cur data = ((st', d'), r)"
  obtains (zero) "block_size st = 0" "st' = st" "d' = d" "r = Inl ZeroDivisionError"
  | (ensure) e where "block_size st \<noteq> 0"
      "ensure_block (cur div int (block_size st)) st d = ((st', d'), Inl e)" "r = Inl e"
  | (index) u e where "block_size st \<noteq> 0"
      "ensure_block (cur div int (block_size st)) st d = ((st', d'), Inr u)"
      "py_get (direct_blocks d') (cur div int (block_size st)) = Inl e" "r = Inl e"
  | (store) u target e where "block_size st \<noteq> 0"
      "ensure_block (cur div int (block_size st)) st d = ((st', d'), Inr u)"
      "py_get (direct_blocks d') (cur div int (block_size st)) = Inr target"
      "write_block target
         (py_upto data (int (block_size st) - cur mod int (block_size st))) st' = Inl e"
      "r = Inl e"
  | (stored) u target st1 where "block_size st \<noteq> 0"
      "ensure_block (cur div int (block_size st)) st d = ((st1, d'), Inr u)"
      "py_get (direct_blocks d') (cur div int (block_size st)) = Inr target"
      "write_block target
         (py_upto data (int (block_size st) - cur mod int (block_size st))) st1 = Inr st'"
      "r = Inr (length (py_upto data (int (block_size st) - cur mod int (block_size st))))"
proof (cases "block_size st = 0")
  case True
  with assms have "st' = st" "d' = d" "r = Inl ZeroDivisionError"
    by (simp_all add: write_chunk_def)
  with True show ?thesis
    by (rule zero)
next
  case False
  obtain sa da ra where en: "ensure_block (cur div int (block_size st)) st d = ((sa, da), ra)"
    by (metis surj_pair)
  show ?thesis
  proof (cases ra)
    case (Inl e)
    with assms False en have eq: "sa = st'" "da = d'" "r = Inl e"
      by (simp_all add: write_chunk_def)
    show ?thesis
      by (rule ensure[OF False en[unfolded eq Inl] eq(3)])
  next
    case (Inr u)
    note ra = this
    show ?thesis
    proof (cases "py_get (direct_blocks da) (cur div int (block_size st))")
      case (Inl e)
      with assms False en ra have eq: "sa = st'" "da = d'" "r = Inl e"
        by (simp_all add: write_chunk_def)
      show ?thesis
        by (rule index[OF False en[unfolded eq ra] Inl[unfolded eq] eq(3)])
    next
      case (Inr target)
      note tg = this
      show ?thesis
      proof (cases "write_block target
         (py_upto data (int (block_size st) - cur mod int (block_size st))) sa")
        case (Inl e)
        with assms False en ra tg have eq: "sa = st'" "da = d'" "r = Inl e"
          by (simp_all add: write_chunk_def)
        show ?thesis
          by (rule store[OF False en[unfolded eq ra] tg[unfolded eq] Inl[unfolded eq] eq(3)])
      next
        case (Inr st2)
        with assms False en ra tg have eq: "st2 = st'" "da = d'"
          and rr: "r = Inr (length (py_upto data (int (block_size st) - cur mod int (block_size st))))"
          by (simp_all add: write_chunk_def)
        show ?thesis
          by (rule stored[OF False en[unfolded eq ra] tg[unfolded eq] Inr[unfolded eq] rr])
      qed
    qed
  qed
qed

lemma write_chunk_fields:
  assumes "write_chunk st d cur data = ((st', d'), r)"
  shows "block_size st' = block_size st \<and> num_blocks st' = num_blocks st
   \<and> size_f d' = size_f d \<and> hard_links d' = hard_links d \<and> file_type d' = file_type d
   \<and> indirect_block d' = indirect_block d"
  using assms
proof (cases rule: write_chunk_cases)
  case zero
  then show ?thesis by simp
next
  case (ensure e)
  from ensure_block_frame[OF this(2)] show ?thesis by simp
next
  case (index u e)
  from ensure_block_frame[OF this(2)] show ?thesis by simp
next
  case (store u target e)
  from ensure_block_frame[OF this(2)] show ?thesis by simp
next
  case (stored u target st1)
  from ensure_block_frame[OF this(2)] write_block_frame[OF this(4)] show ?thesis by simp
qed

lemma write_chunk_fail_blocks:
  assumes "write_chunk st d cur data = ((st', d'), Inl e)"
  shows "blocks st' = blocks st"
  using assms
proof (cases rule: write_chunk_cases)
  case zero
  then show ?thesis by simp
next
  case (ensure e)
  from ensure_block_frame[OF this(2)] show ?thesis by simp
next
  case (index u e)
  from ensure_block_frame[OF this(2)] show ?thesis by simp
next
  case (store u target e)
  from ensure_block_frame[OF this(2)] show ?thesis by simp
next
  case (stored u target st1)
  then show ?thesis by simp
qed

lemma write_loop_Nil: "write_loop st d cur [] = ((st, d), Inr cur)"
  by (simp add: write_loop.simps)

lemma write_loop_step:
  "data \<noteq> [] \<Longrightarrow> write_chunk st d cur data = ((st1, d1), Inr n) \<Longrightarrow>
   write_loop st d cur data = write_loop st1 d1 (cur + int n) (drop n data)"
  by (subst write_loop.simps) simp

lemma write_loop_fail:
  "data \<noteq> [] \<Longrightarrow> write_chunk st d cur data = (sd, Inl e) \<Longrightarrow>
   write_loop st d cur data = (sd, Inl e)"
  by (subst write_loop.simps) simp

lemma write_loop_fields:
  "write_loop st d cur data = ((st', d'), r) \<Longrightarrow>
   block_size st' = block_size st \<and> num_blocks st' = num_blocks st
   \<and> size_f d' = size_f d \<and> hard_links d' = hard_links d \<and> file_type d' = file_type d
   \<and> indirect_block d' = indirect_block d"
proof (induction "length data" arbitrary: st d cur data rule: less_induct)
  case less
  show ?case
  proof (cases "data = []")
    case True
    with less.prems show ?thesis
      by (simp add: write_loop_Nil)
  next
    case False
    obtain st1 d1 r1 where c: "write_chunk st d cur data = ((st1, d1), r1)"
      by (metis surj_pair)
    note f = write_chunk_fields[OF c]
    show ?thesis
    proof (cases r1)
      case (Inl e)
      with less.prems c False f show ?thesis
        by (simp add: write_loop_fail)
    next
      case (Inr n)
      with less.prems c False have w: "write_loop st1 d1 (cur + int n) (drop n data) = ((st', d'), r)"
        by (simp add: write_loop_step)
      have "0 < n"
        using write_chunk_consumes[OF c[unfolded Inr] False] .
      then have "length (drop n data) < length data"
        using False by simp
      from less.hyps[OF this w] f show ?thesis
        by simp
    qed
  qed
qed

lemma write_chunk_data:
  "py_upto data (int (block_size st) - cur mod int (block_size st))
     = py_upto data' (int (block_size st) - cur mod int (block_size st)) \<Longrightarrow>
   write_chunk st d cur data = write_chunk st d cur data'"
  by (auto simp: write_chunk_def split: sum.splits prod.splits)

lemma write_chunk_length:
  "write_chunk st d cur data = (sd, Inr n) \<Longrightarrow>
   n = length (py_upto data (int (block_size st) - cur mod int (block_size st)))
   \<and> block_size st \<noteq> 0"
  by (cases sd) (auto elim: write_chunk_cases)

lemma py_bound_within: "0 \<le> k \<Longrightarrow> k \<le> int n \<Longrightarrow> py_bound n k = nat k"
  by (auto simp: py_bound_def min_def)

lemma write_loop_append:
  assumes "write_loop st d cur written = ((st1, d1), Inr cur1)"
    and "written = [] \<or> (cur + int (length written)) mod int (block_size st) = 0"
  shows "write_loop st d cur (written @ rest) = write_loop st1 d1 cur1 rest"
  using assms
proof (induction "length written" arbitrary: st d cur written rule: less_induct)
  case less
  show ?case
  proof (cases "written = []")
    case True
    with less.prems(1) show ?thesis
      by (simp add: write_loop_Nil)
  next
    case False
    obtain sa da ra where c: "write_chunk st d cur written = ((sa, da), ra)"
      by (metis surj_pair)
    have "\<exists>n. ra = Inr n"
    proof (cases ra)
      case (Inl e)
      with less.prems(1) c False show ?thesis
        by (simp add: write_loop_fail)
    next
      case (Inr n)
      then show ?thesis by simp
    qed
    then obtain n where ra: "ra = Inr n"
      by blast
    let ?bs = "int (block_size st)"
    let ?k = "?bs - cur mod ?bs"
    from write_chunk_length[OF c[unfolded ra]]
    have n: "n = length (py_upto written ?k)" and bs: "block_size st \<noteq> 0"
      by simp_all
    have al: "(cur + int (length written)) mod ?bs = 0"
      using less.prems(2) False by simp
    have m: "0 \<le> cur mod ?bs" "cur mod ?bs < ?bs"
      using bs by simp_all
    have kl: "?k \<le> int (length written)"
    proof -
      have "(cur mod ?bs + int (length written)) mod ?bs = 0"
        using al by (simp add: mod_add_left_eq)
      then have "?bs dvd cur mod ?bs + int (length written)"
        by (simp add: dvd_eq_mod_eq_0)
      moreover have "0 < int (length written)"
        using False by simp
      then have "0 < cur mod ?bs + int (length written)"
        using m by linarith
      ultimately have "?bs \<le> cur mod ?bs + int (length written)"
        by (rule zdvd_imp_le)
      then show ?thesis by simp
    qed
    have kpos: "0 < ?k"
      using m by simp
    have b1: "py_bound (length written) ?k = nat ?k"
      using kl kpos by (intro py_bound_within) simp_all
    have b2: "py_bound (length (written @ rest)) ?k = nat ?k"
      using kl kpos by (intro py_bound_within) simp_all
    have nkl: "nat ?k \<le> length written"
      using kl by simp
    have up: "py_upto (written @ rest) ?k = py_upto written ?k"
      unfolding py_upto_def b1 b2 using nkl by simp
    have nk: "n = nat ?k"
      unfolding n py_upto_def b1 using nkl by simp
    have nl: "n \<le> length written" "0 < n"
      using nk kl kpos by simp_all
    have c2: "write_chunk st d cur (written @ rest) = ((sa, da), Inr n)"
      using write_chunk_data[OF up, of d] c ra by simp
    have w1: "write_loop sa da (cur + int n) (drop n written) = ((st1, d1), Inr cur1)"
      using less.prems(1) write_loop_step[OF False c[unfolded ra]] by simp
    have bsa: "block_size sa = block_size st"
      using write_chunk_fields[OF c] by simp
    have al': "drop n written = []
               \<or> (cur + int n + int (length (drop n written))) mod int (block_size sa) = 0"
      using al nl by (simp add: bsa)
    have lt: "length (drop n written) < length written"
      using nl False by simp
    have "write_loop st d cur (written @ rest)
            = write_loop sa da (cur + int n) (drop n (written @ rest))"
      using write_loop_step[OF _ c2] False by simp
    also have "drop n (written @ rest) = drop n written @ rest"
      using nl by simp
    also have "write_loop sa da (cur + int n) (drop n written @ rest) = write_loop st1 d1 cur1 rest"
      using less.hyps[OF lt w1 al'] .
    finally show ?thesis .
  qed
qed

lemma write_file_unfold:
  assumes "map_of (open_files fs) fd = Some (fd_index, offset)"
    and "py_index (length (file_descriptors fs)) fd_index = Some k"
    and "file_descriptors fs ! k = Some d"
  shows "write_file fd data fs =
           (case write_loop (block_storage fs) d offset data of
              ((st, d'), Inl e) \<Rightarrow>
                (fs\<lparr>block_storage := st,
                    file_descriptors := (file_descriptors fs)[k := Some d']\<rparr>,
                 Inl e)
            | ((st, d'), Inr current_offset) \<Rightarrow>
                (fs\<lparr>block_storage := st,
                    file_descriptors :=
                      (file_descriptors fs)
                        [k := Some (d'\<lparr>size_f := max (size_f d') current_offset\<rparr>)],
                    open_files :=
                      AList.update fd (fd_index, current_offset) (open_files fs)\<rparr>,
                 Inr ()))"
  using assms by (simp add: write_file_def)

lemma write_file_raises:
  assumes "map_of (open_files fs) fd = Some (fd_index, offset)"
    and "py_index (length (file_descriptors fs)) fd_index = Some k"
    and "file_descriptors fs ! k = Some d"
    and "write_file fd data fs = (fs', Inl e)"
  shows "\<exists>st' d'. fs' = fs\<lparr>block_storage := st',
                            file_descriptors := (file_descriptors fs)[k := Some d']\<rparr>
           \<and> write_loop (block_storage fs) d offset data = ((st', d'), Inl e)
           \<and> size_f d' = size_f d"
proof -
  obtain st' d' r where w: "write_loop (block_storage fs) d offset data = ((st', d'), r)"
    by (metis surj_pair)
  from assms(4) w have "r = Inl e"
    and "fs' = fs\<lparr>block_storage := st', file_descriptors := (file_descriptors fs)[k := Some d']\<rparr>"
    unfolding write_file_unfold[OF assms(1-3)] by (cases r; simp)+
  with w write_loop_fields[OF w] show ?thesis
    by blast
qed

lemma write_file_partial:
  assumes "map_of (open_files fs) fd = Some (fd_index, offset)"
    and "py_index (length (file_descriptors fs)) fd_index = Some k"
    and "file_descriptors fs ! k = Some d"
    and "write_loop (block_storage fs) d offset written = ((st1, d1), Inr cur1)"
    and "written = []
         \<or> (offset + int (length written)) mod int (block_size (block_storage fs)) = 0"
    and "rest \<noteq> []"
    and "write_chunk st1 d1 cur1 rest = ((st2, d2), Inl e)"
  shows "write_file fd (written @ rest) fs =
           (fs\<lparr>block_storage := st2, file_descriptors := (file_descriptors fs)[k := Some d2]\<rparr>,
            Inl e)
         \<and> blocks st2 = blocks st1 \<and> size_f d2 = size_f d"
proof -
  have "write_loop (block_storage fs) d offset (written @ rest) = write_loop st1 d1 cur1 rest"
    using assms(4,5) by (rule write_loop_append)
  also have "\<dots> = ((st2, d2), Inl e)"
    using assms(6,7) by (rule write_loop_fail)
  finally have w: "write_loop (block_storage fs) d offset (written @ rest) = ((st2, d2), Inl e)" .
  have "size_f d2 = size_f d"
    using write_loop_fields[OF w] by simp
  moreover have "blocks st2 = blocks st1"
    using assms(7) by (rule write_chunk_fail_blocks)
  ultimately show ?thesis
    unfolding write_file_unfold[OF assms(1-3)] w by simp
qed

text \<open>
  C4 as stated, at an input. With blocks of 2 bytes and the 10 slots of a descriptor, a
  \<^verbatim>\<open>write\<close> of 21 bytes to a new file stores ten chunks and raises on the eleventh, for
  which \<^verbatim>\<open>add_block\<close> finds no slot. The ten blocks hold the 20 bytes, but the size
  of the descriptor and the offset of the handle are 0, as before the call, not 20: both are
  assigned after the loop only.
\<close>

theorem C4_failed_write_counterexample:
  "snd (write_file 0 ''abcdefghijklmnopqrstu''
          (exec_calls [Create ''f'', Open ''f''] (FileSystem_init 12 2 2))) = Inl NoCapacity
   \<and> take 10 (blocks (block_storage (fst (write_file 0 ''abcdefghijklmnopqrstu''
          (exec_calls [Create ''f'', Open ''f''] (FileSystem_init 12 2 2))))))
       = [''ab'', ''cd'', ''ef'', ''gh'', ''ij'', ''kl'', ''mn'', ''op'', ''qr'', ''st'']
   \<and> map_option size_f (file_descriptors (fst (write_file 0 ''abcdefghijklmnopqrstu''
          (exec_calls [Create ''f'', Open ''f''] (FileSystem_init 12 2 2)))) ! 0) = Some 0
   \<and> map_of (open_files (fst (write_file 0 ''abcdefghijklmnopqrstu''
          (exec_calls [Create ''f'', Open ''f''] (FileSystem_init 12 2 2))))) 0 = Some (0, 0)"
  by code_simp

text \<open>
  C4, amended. A \<^verbatim>\<open>write\<close> on an open handle that raises leaves the storage and the
  descriptor as its loop had made them when it raised, the handle's offset and the
  descriptor's size as they were before the call. In particular, when the loop has stored
  \<open>written\<close> up to the end of a block and the next chunk raises, the buffers of all blocks
  are those the loop had made by storing \<open>written\<close>: nothing is rolled back.
\<close>

theorem C4_failed_write_keeps_blocks:
  "map_of (open_files fs) fd = Some (fd_index, offset)
   \<and> py_index (length (file_descriptors fs)) fd_index = Some k
   \<and> file_descriptors fs ! k = Some d
   \<longrightarrow>
     (write_file fd data fs = (fs', Inl e) \<longrightarrow>
        (\<exists>st' d'. fs' = fs\<lparr>block_storage := st',
                              file_descriptors := (file_descriptors fs)[k := Some d']\<rparr>
           \<and> write_loop (block_storage fs) d offset data = ((st', d'), Inl e)
           \<and> size_f d' = size_f d))
     \<and> (write_loop (block_storage fs) d offset written = ((st1, d1), Inr cur1)
        \<and> (written = []
            \<or> (offset + int (length written)) mod int (block_size (block_storage fs)) = 0)
        \<and> rest \<noteq> []
        \<and> write_chunk st1 d1 cur1 rest = ((st2, d2), Inl e)
        \<longrightarrow>
          write_file fd (written @ rest) fs =
            (fs\<lparr>block_storage := st2,
                file_descriptors := (file_descriptors fs)[k := Some d2]\<rparr>,
             Inl e)
          \<and> blocks st2 = blocks st1 \<and> size_f d2 = size_f d)"
proof (intro impI)
  assume "map_of (open_files fs) fd = Some (fd_index, offset)
   \<and> py_index (length (file_descriptors fs)) fd_index = Some k
   \<and> file_descriptors fs ! k = Some d"
  then have h: "map_of (open_files fs) fd = Some (fd_index, offset)"
    "py_index (length (file_descriptors fs)) fd_index = Some k"
    "file_descriptors fs ! k = Some d"
    by simp_all
  show "(write_file fd data fs = (fs', Inl e) \<longrightarrow>
        (\<exists>st' d'. fs' = fs\<lparr>block_storage := st',
                              file_descriptors := (file_descriptors fs)[k := Some d']\<rparr>
           \<and> write_loop (block_storage fs) d offset data = ((st', d'), Inl e)
           \<and> size_f d' = size_f d))
     \<and> (write_loop (block_storage fs) d offset written = ((st1, d1), Inr cur1)
        \<and> (written = []
            \<or> (offset + int (length written)) mod int (block_size (block_storage fs)) = 0)
        \<and> rest \<noteq> []
        \<and> write_chunk st1 d1 cur1 rest = ((st2, d2), Inl e)
        \<longrightarrow>
          write_file fd (written @ rest) fs =
            (fs\<lparr>block_storage := st2,
                file_descriptors := (file_descriptors fs)[k := Some d2]\<rparr>,
             Inl e)
          \<and> blocks st2 = blocks st1 \<and> size_f d2 = size_f d)"
  proof (rule conjI; rule impI)
    assume "write_file fd data fs = (fs', Inl e)"
    from write_file_raises[OF h this]
    show "\<exists>st' d'. fs' = fs\<lparr>block_storage := st',
                              file_descriptors := (file_descriptors fs)[k := Some d']\<rparr>
           \<and> write_loop (block_storage fs) d offset data = ((st', d'), Inl e)
           \<and> size_f d' = size_f d" .
  next
    assume "write_loop (block_storage fs) d offset written = ((st1, d1), Inr cur1)
        \<and> (written = []
            \<or> (offset + int (length written)) mod int (block_size (block_storage fs)) = 0)
        \<and> rest \<noteq> []
        \<and> write_chunk st1 d1 cur1 rest = ((st2, d2), Inl e)"
    then have p: "write_loop (block_storage fs) d offset written = ((st1, d1), Inr cur1)"
      "written = []
         \<or> (offset + int (length written)) mod int (block_size (block_storage fs)) = 0"
      "rest \<noteq> []" "write_chunk st1 d1 cur1 rest = ((st2, d2), Inl e)"
      by simp_all
    from write_file_partial[OF h p]
    show "write_file fd (written @ rest) fs =
            (fs\<lparr>block_storage := st2,
                file_descriptors := (file_descriptors fs)[k := Some d2]\<rparr>,
             Inl e)
          \<and> blocks st2 = blocks st1 \<and> size_f d2 = size_f d" .
  qed
qed

theorem C4_failed_write_keeps_blocks_witness:
  "map_of (open_files (exec_calls [Create ''f'', Open ''f''] (FileSystem_init 12 2 2))) 0
     = Some (0, 0)
   \<and> snd (write_loop
        (block_storage (exec_calls [Create ''f'', Open ''f''] (FileSystem_init 12 2 2)))
        (FileDescriptor_init ''regular'' max_direct_blocks_default) 0 ''abcdefghijklmnopqrst'') = Inr 20
   \<and> snd (write_file 0 (''abcdefghijklmnopqrst'' @ ''u'')
        (exec_calls [Create ''f'', Open ''f''] (FileSystem_init 12 2 2))) = Inl NoCapacity
   \<and> blocks (block_storage (fst (write_file 0 (''abcdefghijklmnopqrst'' @ ''u'')
        (exec_calls [Create ''f'', Open ''f''] (FileSystem_init 12 2 2)))))
       = blocks (fst (fst (write_loop
           (block_storage (exec_calls [Create ''f'', Open ''f''] (FileSystem_init 12 2 2)))
           (FileDescriptor_init ''regular'' max_direct_blocks_default) 0 ''abcdefghijklmnopqrst'')))
   \<and> map_option size_f (file_descriptors (fst (write_file 0 (''abcdefghijklmnopqrst'' @ ''u'')
        (exec_calls [Create ''f'', Open ''f''] (FileSystem_init 12 2 2)))) ! 0) = Some 0
   \<and> open_files (fst (write_file 0 (''abcdefghijklmnopqrst'' @ ''u'')
        (exec_calls [Create ''f'', Open ''f''] (FileSystem_init 12 2 2))))
       = open_files (exec_calls [Create ''f'', Open ''f''] (FileSystem_init 12 2 2))"
proof -
  let ?F = "exec_calls [Create ''f'', Open ''f''] (FileSystem_init 12 2 2)"
  let ?d = "FileDescriptor_init ''regular'' max_direct_blocks_default"
  let ?w = "write_loop (block_storage ?F) ?d 0 ''abcdefghijklmnopqrst''"
  let ?st1 = "fst (fst ?w)"
  let ?d1 = "snd (fst ?w)"
  let ?c = "write_chunk ?st1 ?d1 20 ''u''"
  let ?st2 = "fst (fst ?c)"
  let ?d2 = "snd (fst ?c)"
  have f1: "map_of (open_files ?F) 0 = Some (0, 0)" by code_simp
  have f2: "py_index (length (file_descriptors ?F)) 0 = Some 0" by code_simp
  have f3: "file_descriptors ?F ! 0 = Some ?d" by code_simp
  have sw: "snd ?w = Inr 20" by code_simp
  then have f4: "?w = ((?st1, ?d1), Inr 20)"
    by (metis prod.collapse)
  have f5: "''abcdefghijklmnopqrst'' = []
            \<or> (0 + int (length ''abcdefghijklmnopqrst'')) mod int (block_size (block_storage ?F)) = 0"
    by code_simp
  have f6: "''u'' \<noteq> []" by simp
  have "snd ?c = Inl NoCapacity" by code_simp
  then have f7: "?c = ((?st2, ?d2), Inl NoCapacity)"
    by (metis prod.collapse)
  have len: "length (file_descriptors ?F) = 2" "size_f ?d = 0" by code_simp+
  from C4_failed_write_keeps_blocks[of ?F 0 0 0 0 ?d "[]" ?F NoCapacity "''abcdefghijklmnopqrst''"
      ?st1 ?d1 20 "''u''" ?st2 ?d2] f1 f2 f3 f4 f5 f6 f7
  have r: "write_file 0 (''abcdefghijklmnopqrst'' @ ''u'') ?F =
            (?F\<lparr>block_storage := ?st2,
                file_descriptors := (file_descriptors ?F)[0 := Some ?d2]\<rparr>,
             Inl NoCapacity)"
    and b: "blocks ?st2 = blocks ?st1" and s: "size_f ?d2 = size_f ?d"
    by blast+
  have a: "snd (write_file 0 (''abcdefghijklmnopqrst'' @ ''u'') ?F) = Inl NoCapacity"
    by (simp only: r snd_conv)
  have c: "blocks (block_storage (fst (write_file 0 (''abcdefghijklmnopqrst'' @ ''u'') ?F))) = blocks ?st1"
    unfolding r by (simp add: b)
  have d: "map_option size_f (file_descriptors (fst (write_file 0 (''abcdefghijklmnopqrst'' @ ''u'') ?F)) ! 0)
             = Some 0"
    unfolding r using s len by simp
  have e: "open_files (fst (write_file 0 (''abcdefghijklmnopqrst'' @ ''u'') ?F)) = open_files ?F"
    unfolding r by simp
  from f1 sw a c d e show ?thesis
    by blast
qed

lemma write_block_nat:
  assumes "wf_storage st" "k < num_blocks st" "length chunk \<le> block_size st"
  shows "write_block (int k) chunk st =
           Inr (st\<lparr>blocks := (blocks st)[k := chunk @ drop (length chunk) (blocks st ! k)]\<rparr>)"
proof -
  have l: "length (blocks st) = num_blocks st" "length (blocks st ! k) = block_size st"
    using assms(1,2) by (simp_all add: wf_storage_def list_all_length)
  have "py_bound (length (blocks st ! k)) (int (length chunk)) = length chunk"
    using assms(3) l by (simp add: py_bound_def)
  then show ?thesis
    using assms l by (simp add: write_block_def)
qed

lemma wf_storage_store:
  assumes "wf_storage st" "k < num_blocks st" "length buf = block_size st"
  shows "wf_storage (st\<lparr>blocks := (blocks st)[k := buf]\<rparr>)"
  using assms
  by (auto simp: wf_storage_def list_all_length nth_list_update)

lemma write_chunk_aligned:
  assumes "wf_storage st" "block_size st \<noteq> 0"
    and "direct_blocks d = bl @ replicate (Suc m) (- 1)" "- 1 \<notin> set bl"
    and "cur = int (length bl) * int (block_size st)" "0 < free_count st"
  shows "\<exists>k. k < num_blocks st \<and> bitmap st ! k = 0
           \<and> Suc (free_count (st\<lparr>bitmap := (bitmap st)[k := 1]\<rparr>)) = free_count st
           \<and> write_chunk st d cur data =
               ((st\<lparr>bitmap := (bitmap st)[k := 1],
                    blocks := (blocks st)
                      [k := take (block_size st) data
                            @ drop (length (take (block_size st) data)) (blocks st ! k)]\<rparr>,
                 d\<lparr>direct_blocks := bl @ int k # replicate m (- 1)\<rparr>),
                Inr (length (take (block_size st) data)))"
proof -
  let ?bs = "int (block_size st)"
  from allocate_block_free[OF assms(1,6)]
  obtain k where k: "k < num_blocks st" "bitmap st ! k = 0"
    and al: "allocate_block st = Inr (st\<lparr>bitmap := (bitmap st)[k := 1]\<rparr>, int k)"
    and fc: "Suc (free_count (st\<lparr>bitmap := (bitmap st)[k := 1]\<rparr>)) = free_count st"
    by blast
  let ?st1 = "st\<lparr>bitmap := (bitmap st)[k := 1]\<rparr>"
  let ?d1 = "d\<lparr>direct_blocks := bl @ int k # replicate m (- 1)\<rparr>"
  have bi: "cur div ?bs = int (length bl)" and bo: "cur mod ?bs = 0"
    using assms(2,5) by simp_all
  have g0: "py_get (direct_blocks d) (int (length bl)) = Inr (- 1)"
    by (simp add: assms(3) py_get_def py_index_def nth_append)
  have ad: "add_block (int k) d = Inr ?d1"
    using assms(3,4) by (rule add_block_slot)
  have en: "ensure_block (cur div ?bs) st d = ((?st1, ?d1), Inr ())"
    unfolding bi by (simp add: ensure_block_def assms(3) g0[unfolded assms(3)] al ad)
  have g1: "py_get (bl @ int k # replicate m (- 1)) (cur div ?bs) = Inr (int k)"
    unfolding bi by (simp add: py_get_def py_index_def nth_append)
  have up: "py_upto data (?bs - cur mod ?bs) = take (block_size st) data"
    unfolding bo by (simp add: py_upto_def py_bound_def min_def)
  have w1: "wf_storage ?st1"
    using assms(1) by (rule wf_storage_mark)
  have wb: "write_block (int k) (take (block_size st) data) ?st1 =
          Inr (?st1\<lparr>blocks := (blocks ?st1)
                 [k := take (block_size st) data
                       @ drop (length (take (block_size st) data)) (blocks ?st1 ! k)]\<rparr>)"
    using w1 k(1) by (intro write_block_nat) simp_all
  have "write_chunk st d cur data =
               ((st\<lparr>bitmap := (bitmap st)[k := 1],
                    blocks := (blocks st)
                      [k := take (block_size st) data
                            @ drop (length (take (block_size st) data)) (blocks st ! k)]\<rparr>,
                 ?d1),
                Inr (length (take (block_size st) data)))"
    using assms(2) by (simp add: write_chunk_def en g1 up wb)
  with k fc show ?thesis
    by blast
qed

lemma blocks_for_zero: "bs \<noteq> 0 \<Longrightarrow> blocks_for 0 bs = 0"
  by (simp add: blocks_for_def)

lemma blocks_for_one: "bs \<noteq> 0 \<Longrightarrow> 0 < x \<Longrightarrow> x \<le> int bs \<Longrightarrow> blocks_for x bs = 1"
proof -
  assume a: "bs \<noteq> 0" "0 < x" "x \<le> int bs"
  have e: "x + int bs - 1 = int bs * 1 + (x - 1)" by simp
  have "(int bs * 1 + (x - 1)) div int bs = 1 + (x - 1) div int bs"
    by (rule div_mult_self4) (use a in simp)
  then have "(x + int bs - 1) div int bs = 1 + (x - 1) div int bs"
    by (simp only: e)
  moreover have "(x - 1) div int bs = 0"
    using a by (intro div_pos_pos_trivial) simp_all
  ultimately show ?thesis
    by (simp add: blocks_for_def)
qed

lemma blocks_for_step: "bs \<noteq> 0 \<Longrightarrow> blocks_for (x - int bs) bs = blocks_for x bs - 1"
proof -
  assume a: "bs \<noteq> 0"
  have e: "x + int bs - 1 = int bs * 1 + (x - int bs + int bs - 1)" by simp
  have "(int bs * 1 + (x - int bs + int bs - 1)) div int bs
          = 1 + (x - int bs + int bs - 1) div int bs"
    by (rule div_mult_self4) (use a in simp)
  then have "(x + int bs - 1) div int bs = 1 + (x - int bs + int bs - 1) div int bs"
    by (simp only: e)
  then show ?thesis
    unfolding blocks_for_def by linarith
qed

lemma file_bytes_Cons: "file_bytes st (b # bl) = blocks st ! nat b @ file_bytes st bl"
  by (simp add: file_bytes_def)

lemma file_bytes_Nil: "file_bytes st [] = []"
  by (simp add: file_bytes_def)

lemma write_loop_aligned:
  assumes "wf_storage st" "block_size st \<noteq> 0"
    and "direct_blocks d = bl @ replicate m (- 1)"
    and "\<forall>b\<in>set bl. 0 \<le> b \<and> b < int (num_blocks st) \<and> bitmap st ! nat b = 1"
    and "data \<noteq> [] \<longrightarrow> cur = int (length bl) * int (block_size st)"
    and "length data \<le> m * block_size st"
    and "nat (blocks_for (int (length data)) (block_size st)) \<le> free_count st"
  shows "\<exists>st' new.
           write_loop st d cur data =
             ((st', d\<lparr>direct_blocks := bl @ new @ replicate (m - length new) (- 1)\<rparr>),
              Inr (cur + int (length data)))
           \<and> wf_storage st' \<and> block_size st' = block_size st \<and> num_blocks st' = num_blocks st
           \<and> length new = nat (blocks_for (int (length data)) (block_size st))
           \<and> (\<forall>b\<in>set new. 0 \<le> b \<and> b < int (num_blocks st) \<and> bitmap st ! nat b = 0)
           \<and> (\<forall>j<num_blocks st. int j \<notin> set new \<longrightarrow> blocks st' ! j = blocks st ! j)
           \<and> (\<forall>j<num_blocks st. bitmap st ! j = 1 \<or> int j \<in> set new \<longrightarrow> bitmap st' ! j = 1)
           \<and> take (length data) (file_bytes st' new) = data"
  using assms
proof (induction "length data" arbitrary: st d bl m cur data rule: less_induct)
  case less
  note bs = less.prems(2)
  let ?bs = "block_size st"
  show ?case
  proof (cases "data = []")
    case True
    have "write_loop st d cur data =
             ((st, d\<lparr>direct_blocks := bl @ [] @ replicate (m - length ([]::int list)) (- 1)\<rparr>),
              Inr (cur + int (length data)))"
      using True less.prems(3) by (simp add: write_loop_Nil)
    moreover have "length ([]::int list) = nat (blocks_for (int (length data)) ?bs)"
      using True bs by (simp add: blocks_for_zero)
    ultimately show ?thesis
      using less.prems(1) True
      by (intro exI[of _ st] exI[of _ "[]"]) (simp add: file_bytes_Nil)
  next
    case False
    then have lpos: "0 < length data" by simp
    have cur: "cur = int (length bl) * int ?bs"
      using less.prems(5) False by simp
    obtain m' where m': "m = Suc m'"
      using less.prems(6) lpos by (cases m) auto
    have nb: "- 1 \<notin> set bl"
      using less.prems(4) by auto
    have bf1: "1 \<le> blocks_for (int (length data)) ?bs"
    proof -
      from blocks_for_ceiling[OF bs, of "int (length data)"]
      have "int (length data) \<le> blocks_for (int (length data)) ?bs * int ?bs" by simp
      with lpos have "0 < blocks_for (int (length data)) ?bs * int ?bs" by linarith
      then have "0 < blocks_for (int (length data)) ?bs"
        using bs by (simp add: zero_less_mult_iff)
      then show ?thesis by simp
    qed
    then have fpos: "0 < free_count st"
      using less.prems(7) by linarith
    from write_chunk_aligned[OF less.prems(1) bs less.prems(3)[unfolded m'] nb cur fpos, of data]
    obtain k where k: "k < num_blocks st" "bitmap st ! k = 0"
      and fc: "Suc (free_count (st\<lparr>bitmap := (bitmap st)[k := 1]\<rparr>)) = free_count st"
      and wc: "write_chunk st d cur data =
               ((st\<lparr>bitmap := (bitmap st)[k := 1],
                    blocks := (blocks st)
                      [k := take ?bs data @ drop (length (take ?bs data)) (blocks st ! k)]\<rparr>,
                 d\<lparr>direct_blocks := bl @ int k # replicate m' (- 1)\<rparr>),
                Inr (length (take ?bs data)))"
      by blast
    let ?n = "length (take ?bs data)"
    let ?buf = "take ?bs data @ drop ?n (blocks st ! k)"
    let ?st2 = "st\<lparr>bitmap := (bitmap st)[k := 1], blocks := (blocks st)[k := ?buf]\<rparr>"
    let ?d1 = "d\<lparr>direct_blocks := bl @ int k # replicate m' (- 1)\<rparr>"
    let ?data' = "drop ?n data"
    have len: "length (blocks st) = num_blocks st" "length (bitmap st) = num_blocks st"
      "length (blocks st ! k) = ?bs"
      using less.prems(1) k(1) by (simp_all add: wf_storage_def list_all_length)
    have n: "?n = min ?bs (length data)" "0 < ?n" "?n \<le> length data"
      using bs lpos by simp_all
    have lbuf: "length ?buf = ?bs"
      using len(3) by simp
    have w2: "wf_storage ?st2"
    proof -
      have "wf_storage (st\<lparr>bitmap := (bitmap st)[k := 1]\<rparr>)"
        using less.prems(1) by (rule wf_storage_mark)
      from wf_storage_store[OF this, of k ?buf] k(1) lbuf show ?thesis by simp
    qed
    have step: "write_loop st d cur data = write_loop ?st2 ?d1 (cur + int ?n) ?data'"
      using False wc by (rule write_loop_step)
    have lt: "length ?data' < length data"
      using n by simp
    have p3: "direct_blocks ?d1 = (bl @ [int k]) @ replicate m' (- 1)"
      by simp
    have p4: "\<forall>b\<in>set (bl @ [int k]).
                0 \<le> b \<and> b < int (num_blocks ?st2) \<and> bitmap ?st2 ! nat b = 1"
    proof
      fix b assume "b \<in> set (bl @ [int k])"
      then consider "b \<in> set bl" | "b = int k" by auto
      then show "0 \<le> b \<and> b < int (num_blocks ?st2) \<and> bitmap ?st2 ! nat b = 1"
      proof cases
        case 1
        with less.prems(4) have b: "0 \<le> b" "b < int (num_blocks st)" "bitmap st ! nat b = 1"
          by auto
        then have "nat b \<noteq> k" using k(2) by auto
        with b len show ?thesis by simp
      next
        case 2
        with k len show ?thesis by simp
      qed
    qed
    have p5: "?data' \<noteq> [] \<longrightarrow> cur + int ?n = int (length (bl @ [int k])) * int (block_size ?st2)"
    proof
      assume "?data' \<noteq> []"
      then have "?bs < length data" by simp
      then have "?n = ?bs" by simp
      then show "cur + int ?n = int (length (bl @ [int k])) * int (block_size ?st2)"
        by (simp add: cur algebra_simps)
    qed
    have p6: "length ?data' \<le> m' * block_size ?st2"
      using less.prems(6) m' n by (simp add: min_def split: if_splits)
    have bf: "blocks_for (int (length ?data')) ?bs = blocks_for (int (length data)) ?bs - 1"
    proof (cases "?bs < length data")
      case True
      then have "int (length ?data') = int (length data) - int ?bs"
        by simp
      then show ?thesis
        using blocks_for_step[OF bs, of "int (length data)"] by simp
    next
      case False
      then have "length ?data' = 0" by simp
      moreover have "blocks_for (int (length data)) ?bs = 1"
        using False lpos bs by (intro blocks_for_one) simp_all
      ultimately show ?thesis
        using bs by (simp add: blocks_for_zero)
    qed
    have p7: "nat (blocks_for (int (length ?data')) (block_size ?st2)) \<le> free_count ?st2"
    proof -
      have "free_count ?st2 = free_count (st\<lparr>bitmap := (bitmap st)[k := 1]\<rparr>)"
        by (simp add: free_count_def)
      with fc less.prems(7) bf bf1 show ?thesis
        by simp
    qed
    have bs2: "block_size ?st2 \<noteq> 0"
      using bs by simp
    from less.hyps[OF lt w2 bs2 p3 p4 p5 p6 p7]
    obtain st' new' where
      wl: "write_loop ?st2 ?d1 (cur + int ?n) ?data' =
             ((st', ?d1\<lparr>direct_blocks :=
                          (bl @ [int k]) @ new' @ replicate (m' - length new') (- 1)\<rparr>),
              Inr (cur + int ?n + int (length ?data')))"
      and w': "wf_storage st'" "block_size st' = ?bs" "num_blocks st' = num_blocks st"
      and ln: "length new' = nat (blocks_for (int (length ?data')) ?bs)"
      and nw: "\<forall>b\<in>set new'. 0 \<le> b \<and> b < int (num_blocks st) \<and> bitmap ?st2 ! nat b = 0"
      and un: "\<forall>j<num_blocks st. int j \<notin> set new' \<longrightarrow> blocks st' ! j = blocks ?st2 ! j"
      and bm: "\<forall>j<num_blocks st. bitmap ?st2 ! j = 1 \<or> int j \<in> set new' \<longrightarrow> bitmap st' ! j = 1"
      and tk: "take (length ?data') (file_bytes st' new') = ?data'"
      by auto
    let ?new = "int k # new'"
    have knew: "int k \<notin> set new'"
    proof
      assume "int k \<in> set new'"
      with nw have "bitmap ?st2 ! nat (int k) = 0" by blast
      with k len show False by simp
    qed
    have c1: "write_loop st d cur data =
             ((st', d\<lparr>direct_blocks := bl @ ?new @ replicate (m - length ?new) (- 1)\<rparr>),
              Inr (cur + int (length data)))"
      unfolding step wl using n(3) m' by simp
    have c2: "length ?new = nat (blocks_for (int (length data)) ?bs)"
      using ln bf bf1 by simp
    have c3: "\<forall>b\<in>set ?new. 0 \<le> b \<and> b < int (num_blocks st) \<and> bitmap st ! nat b = 0"
    proof
      fix b assume "b \<in> set ?new"
      then consider "b = int k" | "b \<in> set new'" by auto
      then show "0 \<le> b \<and> b < int (num_blocks st) \<and> bitmap st ! nat b = 0"
      proof cases
        case 1
        with k show ?thesis by simp
      next
        case 2
        with nw have b: "0 \<le> b" "b < int (num_blocks st)" "bitmap ?st2 ! nat b = 0"
          by auto
        have "nat b \<noteq> k"
          using b(3) k len by auto
        with b len show ?thesis by simp
      qed
    qed
    have c4: "\<forall>j<num_blocks st. int j \<notin> set ?new \<longrightarrow> blocks st' ! j = blocks st ! j"
    proof (intro allI impI)
      fix j assume j: "j < num_blocks st" "int j \<notin> set ?new"
      then have "blocks st' ! j = blocks ?st2 ! j"
        using un by simp
      also have "\<dots> = blocks st ! j"
        using j by simp
      finally show "blocks st' ! j = blocks st ! j" .
    qed
    have c5: "\<forall>j<num_blocks st. bitmap st ! j = 1 \<or> int j \<in> set ?new \<longrightarrow> bitmap st' ! j = 1"
    proof (intro allI impI)
      fix j assume j: "j < num_blocks st" "bitmap st ! j = 1 \<or> int j \<in> set ?new"
      have "bitmap ?st2 ! j = 1 \<or> int j \<in> set new'"
        using j len by (cases "j = k") auto
      with bm j(1) show "bitmap st' ! j = 1" by blast
    qed
    have c6: "take (length data) (file_bytes st' ?new) = data"
    proof -
      have "blocks st' ! k = blocks ?st2 ! k"
        using un k(1) knew by simp
      also have "\<dots> = ?buf"
        using k(1) len by simp
      finally have bk: "blocks st' ! k = ?buf" .
      have fb: "file_bytes st' ?new = take ?bs data @ drop ?n (blocks st ! k) @ file_bytes st' new'"
        by (simp add: file_bytes_Cons bk)
      show ?thesis
      proof (cases "?bs < length data")
        case True
        then have nb: "?n = ?bs" by simp
        have "drop ?n (blocks st ! k) = []"
          using len(3) nb by simp
        then have "take (length data) (file_bytes st' ?new)
                = take ?bs data @ take (length data - ?bs) (file_bytes st' new')"
          unfolding fb using True by simp
        also have "take (length data - ?bs) (file_bytes st' new') = drop ?bs data"
          using tk nb by simp
        finally show ?thesis by simp
      next
        case False
        then have "take ?bs data = data" by simp
        then show ?thesis
          unfolding fb by simp
      qed
    qed
    from c1 w' c2 c3 c4 c5 c6 show ?thesis
      by (intro exI[of _ st'] exI[of _ ?new]) blast
  qed
qed

lemma create_scan_Inr:
  "create_scan fds n i = Inr k \<Longrightarrow> k < length fds \<and> fds ! k = None"
proof (induction n arbitrary: i)
  case 0
  then show ?case by simp
next
  case (Suc n)
  show ?case
  proof (cases "py_get fds (int i)")
    case (Inl e)
    with Suc.prems show ?thesis by simp
  next
    case (Inr slot)
    then have il: "i < length fds" and sl: "slot = fds ! i"
      by (auto simp: py_get_def py_index_def split: if_splits)
    show ?thesis
    proof (cases "slot = None")
      case True
      with Suc.prems Inr il sl show ?thesis by simp
    next
      case False
      with Suc.prems Inr have "create_scan fds n (Suc i) = Inr k" by simp
      from Suc.IH[OF this] show ?thesis .
    qed
  qed
qed

lemma create_ok:
  assumes "snd (create name fs) = Inr ()"
  shows "\<exists>i. i < length (file_descriptors fs) \<and> file_descriptors fs ! i = None
           \<and> create name fs =
               (fs\<lparr>file_descriptors :=
                     (file_descriptors fs)
                       [i := Some (FileDescriptor_init ''regular'' max_direct_blocks_default)],
                   directory := AList.update name (int i) (directory fs)\<rparr>,
                Inr ())"
proof -
  have n: "map_of (directory fs) name = None"
    using assms by (auto simp: create_def split: if_splits)
  obtain i where i: "create_scan (file_descriptors fs) (max_files fs) 0 = Inr i"
    using assms n by (cases "create_scan (file_descriptors fs) (max_files fs) 0")
      (auto simp: create_def)
  from create_scan_Inr[OF i] n i show ?thesis
    by (auto simp: create_def)
qed

lemma decode_codes_ascii: "\<forall>b\<in>set bs. b < 128 \<Longrightarrow> decode_codes bs = Inr bs"
proof (induction bs)
  case Nil
  then show ?case by (simp add: decode_codes.simps)
next
  case (Cons b bs)
  then show ?case by (subst decode_codes.simps) simp
qed

lemma decode_ascii:
  "\<forall>c\<in>set data. (of_char c :: nat) < 128 \<Longrightarrow> decode data = Inr (map of_char data)"
  by (simp add: decode_def decode_codes_ascii)

lemma round_trip:
  assumes "wf_storage (block_storage fs)" "block_size (block_storage fs) \<noteq> 0"
    and "snd (create name fs) = Inr ()"
    and "length data \<le> max_direct_blocks_default * block_size (block_storage fs)"
    and "nat (blocks_for (int (length data)) (block_size (block_storage fs)))
           \<le> free_count (block_storage fs)"
    and "h = next_fd fs"
  shows "snd (open_file name (exec_calls [Create name] fs)) = Inr h"
    and "snd (write_file h data (exec_calls [Create name, Open name] fs)) = Inr ()"
    and "snd (seek h 0 (exec_calls [Create name, Open name, Write h data] fs)) = Inr ()"
    and "snd (read h (int (length data))
                (exec_calls [Create name, Open name, Write h data, Seek h 0] fs)) = decode data"
proof -
  let ?st = "block_storage fs"
  let ?bs = "block_size ?st"
  let ?d0 = "FileDescriptor_init ''regular'' max_direct_blocks_default"
  from create_ok[OF assms(3)] obtain i where i: "i < length (file_descriptors fs)"
    and cr: "create name fs =
               (fs\<lparr>file_descriptors := (file_descriptors fs)[i := Some ?d0],
                   directory := AList.update name (int i) (directory fs)\<rparr>, Inr ())"
    by blast
  define fs1 where "fs1 = fs\<lparr>file_descriptors := (file_descriptors fs)[i := Some ?d0],
                   directory := AList.update name (int i) (directory fs)\<rparr>"
  define fs2 where "fs2 = fs1\<lparr>open_files := AList.update h (int i, 0) (open_files fs1),
                               next_fd := next_fd fs1 + 1\<rparr>"
  have e1: "exec_calls [Create name] fs = fs1"
    by (simp add: exec_calls_def cr fs1_def)
  have op: "open_file name fs1 = (fs2, Inr h)"
    by (simp add: open_file_def fs1_def fs2_def assms(6))
  have e2: "exec_calls [Create name, Open name] fs = fs2"
    using e1 op by (simp add: exec_calls_def)
  have h2: "map_of (open_files fs2) h = Some (int i, 0)"
    "py_index (length (file_descriptors fs2)) (int i) = Some i"
    "file_descriptors fs2 ! i = Some ?d0" "block_storage fs2 = ?st"
    using i by (simp_all add: fs2_def fs1_def)
  have d0: "direct_blocks ?d0 = [] @ replicate max_direct_blocks_default (- 1)"
    by (simp add: FileDescriptor_init_def)
  from write_loop_aligned[OF assms(1,2) d0 _ _ assms(4,5), of 0]
  obtain st' new where
    wl: "write_loop ?st ?d0 0 data =
           ((st', ?d0\<lparr>direct_blocks :=
                        [] @ new @ replicate (max_direct_blocks_default - length new) (- 1)\<rparr>),
            Inr (0 + int (length data)))"
    and w': "wf_storage st'" "block_size st' = ?bs" "num_blocks st' = num_blocks ?st"
    and ln: "length new = nat (blocks_for (int (length data)) ?bs)"
    and nw: "\<forall>b\<in>set new. 0 \<le> b \<and> b < int (num_blocks ?st) \<and> bitmap ?st ! nat b = 0"
    and tk: "take (length data) (file_bytes st' new) = data"
    by auto
  define d1 where "d1 = ?d0\<lparr>direct_blocks :=
                        new @ replicate (max_direct_blocks_default - length new) (- 1),
                      size_f := int (length data)\<rparr>"
  define fs3 where "fs3 = fs2\<lparr>block_storage := st',
      file_descriptors := (file_descriptors fs2)[i := Some d1],
      open_files := AList.update h (int i, int (length data)) (open_files fs2)\<rparr>"
  have wr: "write_file h data fs2 = (fs3, Inr ())"
    unfolding write_file_unfold[OF h2(1,2,3)] h2(4) wl
    by (simp add: fs3_def d1_def FileDescriptor_init_def)
  have e3: "exec_calls [Create name, Open name, Write h data] fs = fs3"
    using e2 wr by (simp add: exec_calls_def)
  define fs4 where "fs4 = fs3\<lparr>open_files := AList.update h (int i, 0) (open_files fs3)\<rparr>"
  have "map_of (open_files fs3) h = Some (int i, int (length data))"
    by (simp add: fs3_def)
  then have sk: "seek h 0 fs3 = (fs4, Inr ())"
    unfolding fs4_def by (rule seek_open)
  have e4: "exec_calls [Create name, Open name, Write h data, Seek h 0] fs = fs4"
    using e3 sk by (simp add: exec_calls_def)
  have nm: "- 1 \<notin> set new"
    using nw by auto
  have gb: "get_blocks d1 = new"
    using get_blocks_append[OF nm, of d1 "max_direct_blocks_default - length new"]
    by (simp add: d1_def)
  have h4: "map_of (open_files fs4) h = Some (int i, 0)"
    "py_index (length (file_descriptors fs4)) (int i) = Some i"
    "file_descriptors fs4 ! i = Some d1" "block_storage fs4 = st'"
    using i by (simp_all add: fs4_def fs3_def fs2_def fs1_def)
  have cov: "size_f d1 \<le> int (length (get_blocks d1)) * int (block_size (block_storage fs4))"
  proof -
    from blocks_for_ceiling[OF assms(2), of "int (length data)"]
    have c: "int (length data) \<le> blocks_for (int (length data)) ?bs * int ?bs"
      by simp
    then have "0 \<le> blocks_for (int (length data)) ?bs * int ?bs"
      by linarith
    then have "0 \<le> blocks_for (int (length data)) ?bs"
      using assms(2) by (simp add: zero_le_mult_iff)
    then have "int (length new) = blocks_for (int (length data)) ?bs"
      using ln by simp
    moreover have "size_f d1 = int (length data)"
      by (simp add: d1_def)
    ultimately show ?thesis
      using c unfolding gb h4(4) w'(2) by simp
  qed
  have rg: "\<forall>b\<in>set (get_blocks d1). 0 \<le> b \<and> b < int (num_blocks (block_storage fs4))"
    using nw by (simp add: gb h4(4) w'(3))
  have "read h (int (length data)) fs4 =
          (fs4\<lparr>open_files :=
                AList.update h
                  (int i, 0 + max 0 (min (int (length data)) (size_f d1 - 0)))
                  (open_files fs4)\<rparr>,
           decode (take (nat (min (int (length data)) (size_f d1 - 0)))
                     (drop (nat 0) (file_bytes (block_storage fs4) (get_blocks d1)))))"
    using h4(1,2,3) w'(1)[folded h4(4)] _ rg _ cov
    by (rule read_covered) (simp_all add: h4(4) w'(2) assms(2))
  also have "take (nat (min (int (length data)) (size_f d1 - 0)))
               (drop (nat 0) (file_bytes (block_storage fs4) (get_blocks d1))) = data"
  proof -
    have "size_f d1 = int (length data)"
      by (simp add: d1_def)
    then show ?thesis
      unfolding gb h4(4) using tk by simp
  qed
  finally have rd: "snd (read h (int (length data)) fs4) = decode data"
    by simp
  show "snd (open_file name (exec_calls [Create name] fs)) = Inr h"
    by (simp add: e1 op)
  show "snd (write_file h data (exec_calls [Create name, Open name] fs)) = Inr ()"
    by (simp add: e2 wr)
  show "snd (seek h 0 (exec_calls [Create name, Open name, Write h data] fs)) = Inr ()"
    by (simp add: e3 sk)
  show "snd (read h (int (length data))
                (exec_calls [Create name, Open name, Write h data, Seek h 0] fs)) = decode data"
    by (simp only: e4 rd)
qed

text \<open>
  C2 as stated, at inputs. The single byte \<^verbatim>\<open>0xFF\<close> is written, and reading it back
  raises \<^verbatim>\<open>UnicodeDecodeError\<close>: \<^verbatim>\<open>read\<close> returns \<^verbatim>\<open>file_data.decode()\<close>. With
  blocks of 4 bytes, 41 bytes are more than the 10 slots of a descriptor hold, and 17 bytes
  more than a storage of 4 blocks: the \<^verbatim>\<open>write\<close> raises.
\<close>

theorem C2_round_trip_counterexample:
  "snd (write_file 0 [CHR 0xFF] (exec_calls [Create ''f'', Open ''f''] (FileSystem_init 4 4 2)))
     = Inr ()
   \<and> snd (read 0 1 (exec_calls [Create ''f'', Open ''f'', Write 0 [CHR 0xFF], Seek 0 0]
        (FileSystem_init 4 4 2))) = Inl UnicodeDecodeError
   \<and> snd (write_file 0 (replicate 41 (CHR ''a''))
        (exec_calls [Create ''f'', Open ''f''] (FileSystem_init 12 4 2))) = Inl NoCapacity
   \<and> snd (write_file 0 ''abcdefghijklmnopq''
        (exec_calls [Create ''f'', Open ''f''] (FileSystem_init 4 4 2))) = Inl OutOfSpace"
  by code_simp

text \<open>
  C2, amended. In a well-formed storage with a block size that is not 0, let \<open>data\<close> be
  no longer than the slots of a descriptor hold and than the free blocks hold. Then
  \<^verbatim>\<open>create\<close> (if it succeeds), \<^verbatim>\<open>open\<close>, \<^verbatim>\<open>write(h, data)\<close> and
  \<^verbatim>\<open>seek(h, 0)\<close> return normally, and \<^verbatim>\<open>read(h, len(data))\<close> reads exactly
  \<open>data\<close> and returns \<open>decode data\<close>: the text of \<open>data\<close> when all its bytes are
  ASCII, \<^verbatim>\<open>UnicodeDecodeError\<close> when it is not UTF-8. The length of \<open>data\<close> is free:
  less than a block, a block, several blocks.
\<close>

theorem C2_round_trip:
  "wf_storage (block_storage fs) \<and> block_size (block_storage fs) \<noteq> 0
   \<and> snd (create name fs) = Inr ()
   \<and> length data \<le> max_direct_blocks_default * block_size (block_storage fs)
   \<and> nat (blocks_for (int (length data)) (block_size (block_storage fs)))
        \<le> free_count (block_storage fs)
   \<and> h = next_fd fs
   \<longrightarrow>
     snd (open_file name (exec_calls [Create name] fs)) = Inr h
     \<and> snd (write_file h data (exec_calls [Create name, Open name] fs)) = Inr ()
     \<and> snd (seek h 0 (exec_calls [Create name, Open name, Write h data] fs)) = Inr ()
     \<and> snd (read h (int (length data))
               (exec_calls [Create name, Open name, Write h data, Seek h 0] fs)) = decode data
     \<and> ((\<forall>c\<in>set data. (of_char c :: nat) < 128) \<longrightarrow> decode data = Inr (map of_char data))"
proof (intro impI)
  assume "wf_storage (block_storage fs) \<and> block_size (block_storage fs) \<noteq> 0
   \<and> snd (create name fs) = Inr ()
   \<and> length data \<le> max_direct_blocks_default * block_size (block_storage fs)
   \<and> nat (blocks_for (int (length data)) (block_size (block_storage fs)))
        \<le> free_count (block_storage fs)
   \<and> h = next_fd fs"
  then have a: "wf_storage (block_storage fs)" "block_size (block_storage fs) \<noteq> 0"
    "snd (create name fs) = Inr ()"
    "length data \<le> max_direct_blocks_default * block_size (block_storage fs)"
    "nat (blocks_for (int (length data)) (block_size (block_storage fs)))
        \<le> free_count (block_storage fs)"
    "h = next_fd fs"
    by simp_all
  note r = round_trip[OF a]
  have "(\<forall>c\<in>set data. (of_char c :: nat) < 128) \<longrightarrow> decode data = Inr (map of_char data)"
    using decode_ascii by blast
  with r show "snd (open_file name (exec_calls [Create name] fs)) = Inr h
     \<and> snd (write_file h data (exec_calls [Create name, Open name] fs)) = Inr ()
     \<and> snd (seek h 0 (exec_calls [Create name, Open name, Write h data] fs)) = Inr ()
     \<and> snd (read h (int (length data))
               (exec_calls [Create name, Open name, Write h data, Seek h 0] fs)) = decode data
     \<and> ((\<forall>c\<in>set data. (of_char c :: nat) < 128) \<longrightarrow> decode data = Inr (map of_char data))"
    by blast
qed

theorem C2_round_trip_witness:
  "wf_storage (block_storage (FileSystem_init 4 4 2))
   \<and> snd (create ''f'' (FileSystem_init 4 4 2)) = Inr ()
   \<and> length ''Hello!'' \<le> max_direct_blocks_default * block_size (block_storage (FileSystem_init 4 4 2))
   \<and> nat (blocks_for (int (length ''Hello!'')) (block_size (block_storage (FileSystem_init 4 4 2))))
        = 2
   \<and> free_count (block_storage (FileSystem_init 4 4 2)) = 4
   \<and> snd (write_file 0 ''Hello!'' (exec_calls [Create ''f'', Open ''f''] (FileSystem_init 4 4 2)))
       = Inr ()
   \<and> snd (read 0 (int (length ''Hello!''))
        (exec_calls [Create ''f'', Open ''f'', Write 0 ''Hello!'', Seek 0 0] (FileSystem_init 4 4 2)))
       = decode ''Hello!''
   \<and> decode ''Hello!'' = Inr [72, 101, 108, 108, 111, 33]"
proof -
  let ?F = "FileSystem_init 4 4 2"
  have a1: "wf_storage (block_storage ?F)" by code_simp
  have a2: "block_size (block_storage ?F) \<noteq> 0" by code_simp
  have a3: "snd (create ''f'' ?F) = Inr ()" by code_simp
  have a4: "length ''Hello!'' \<le> max_direct_blocks_default * block_size (block_storage ?F)"
    by code_simp
  have b1: "nat (blocks_for (int (length ''Hello!'')) (block_size (block_storage ?F))) = 2"
    by code_simp
  have b2: "free_count (block_storage ?F) = 4" by code_simp
  have a5: "nat (blocks_for (int (length ''Hello!'')) (block_size (block_storage ?F)))
        \<le> free_count (block_storage ?F)"
    unfolding b1 b2 by simp
  have a6: "0 = next_fd ?F" by code_simp
  have a7: "\<forall>c\<in>set ''Hello!''. (of_char c :: nat) < 128" by code_simp
  have m: "map of_char ''Hello!'' = [72, 101, 108, 108, 111, 33::nat]" by code_simp
  from C2_round_trip[of ?F "''f''" "''Hello!''" 0] a1 a2 a3 a4 a5 a6
  have w: "snd (write_file 0 ''Hello!'' (exec_calls [Create ''f'', Open ''f''] ?F)) = Inr ()"
    and r: "snd (read 0 (int (length ''Hello!''))
        (exec_calls [Create ''f'', Open ''f'', Write 0 ''Hello!'', Seek 0 0] ?F)) = decode ''Hello!''"
    and d: "(\<forall>c\<in>set ''Hello!''. (of_char c :: nat) < 128)
              \<longrightarrow> decode ''Hello!'' = Inr (map of_char ''Hello!'')"
    by blast+
  from d a7 have "decode ''Hello!'' = Inr (map of_char ''Hello!'')"
    by blast
  then have d': "decode ''Hello!'' = Inr [72, 101, 108, 108, 111, 33]"
    by (simp only: m)
  from a1 a3 a4 b1 b2 w r d' show ?thesis
    by blast
qed

lemma write_file_empty_exact:
  assumes "map_of (open_files fs) fd = Some (fd_index, offset)"
    and "py_index (length (file_descriptors fs)) fd_index = Some k"
    and "file_descriptors fs ! k = Some d"
  shows "write_file fd [] fs =
           (fs\<lparr>file_descriptors :=
                 (file_descriptors fs)[k := Some (d\<lparr>size_f := max (size_f d) offset\<rparr>)]\<rparr>,
            Inr ())"
  unfolding write_file_empty[OF assms] by (simp add: update_same[OF assms(1)])

lemma empty_write_after_seek:
  assumes "map_of (open_files fs) fd = Some (fd_index, offset)"
    and "py_index (length (file_descriptors fs)) fd_index = Some k"
    and "file_descriptors fs ! k = Some d"
  shows "write_file fd [] (fst (seek fd c fs)) =
           (fs\<lparr>file_descriptors :=
                 (file_descriptors fs)[k := Some (d\<lparr>size_f := max (size_f d) c\<rparr>)],
               open_files := AList.update fd (fd_index, c) (open_files fs)\<rparr>,
            Inr ())"
proof -
  define fs1 where "fs1 = fs\<lparr>open_files := AList.update fd (fd_index, c) (open_files fs)\<rparr>"
  have s1: "seek fd c fs = (fs1, Inr ())"
    unfolding fs1_def using assms(1) by (rule seek_open)
  have "map_of (open_files fs1) fd = Some (fd_index, c)"
    "py_index (length (file_descriptors fs1)) fd_index = Some k"
    "file_descriptors fs1 ! k = Some d"
    using assms(2,3) by (simp_all add: fs1_def)
  from write_file_empty_exact[OF this] show ?thesis
    by (simp add: s1 fs1_def)
qed

text \<open>
  C10. A \<^verbatim>\<open>write\<close> of no bytes on an open handle returns, leaves the storage, the block
  list of the descriptor and the handle as they are, and sets the size of the descriptor to
  the greater of the size and the offset of the handle, whichever of the two it is. After
  \<^verbatim>\<open>seek(fd, c)\<close> the size is the greater of the size and \<open>c\<close>: it is \<open>c\<close> when \<open>c\<close> is
  past the size, with no block behind the new bytes. A \<^verbatim>\<open>read\<close> of at least one byte
  from an offset \<open>p\<close> below \<open>c\<close> and past the blocks of the descriptor then raises
  \<^verbatim>\<open>IndexError\<close>, on \<^verbatim>\<open>blocks[block_index]\<close>.
\<close>

theorem C10_empty_write_grows_size:
  "map_of (open_files fs) fd = Some (fd_index, offset)
   \<and> py_index (length (file_descriptors fs)) fd_index = Some k
   \<and> file_descriptors fs ! k = Some d
   \<longrightarrow>
     write_file fd [] fs =
       (fs\<lparr>file_descriptors :=
             (file_descriptors fs)[k := Some (d\<lparr>size_f := max (size_f d) offset\<rparr>)]\<rparr>,
        Inr ())
     \<and> write_file fd [] (fst (seek fd c fs)) =
         (fs\<lparr>file_descriptors :=
               (file_descriptors fs)[k := Some (d\<lparr>size_f := max (size_f d) c\<rparr>)],
             open_files := AList.update fd (fd_index, c) (open_files fs)\<rparr>,
          Inr ())
     \<and> (size_f d < c \<longrightarrow>
          write_file fd [] (fst (seek fd c fs)) =
            (fs\<lparr>file_descriptors := (file_descriptors fs)[k := Some (d\<lparr>size_f := c\<rparr>)],
                open_files := AList.update fd (fd_index, c) (open_files fs)\<rparr>,
             Inr ()))
     \<and> (size_f d < c \<and> block_size (block_storage fs) \<noteq> 0
        \<and> int (length (get_blocks d)) * int (block_size (block_storage fs)) \<le> p
        \<and> p < c \<and> 0 < sz
        \<longrightarrow>
          read fd sz (fst (seek fd p (fst (write_file fd [] (fst (seek fd c fs)))))) =
            (fst (seek fd p (fst (write_file fd [] (fst (seek fd c fs))))), Inl IndexError))"
proof (intro impI)
  assume "map_of (open_files fs) fd = Some (fd_index, offset)
   \<and> py_index (length (file_descriptors fs)) fd_index = Some k
   \<and> file_descriptors fs ! k = Some d"
  then have h: "map_of (open_files fs) fd = Some (fd_index, offset)"
    "py_index (length (file_descriptors fs)) fd_index = Some k"
    "file_descriptors fs ! k = Some d"
    by simp_all
  note a = write_file_empty_exact[OF h]
  note b = empty_write_after_seek[OF h, of c]
  have c: "size_f d < c \<longrightarrow>
          write_file fd [] (fst (seek fd c fs)) =
            (fs\<lparr>file_descriptors := (file_descriptors fs)[k := Some (d\<lparr>size_f := c\<rparr>)],
                open_files := AList.update fd (fd_index, c) (open_files fs)\<rparr>,
             Inr ())"
    using b by (simp add: max_def)
  have d: "size_f d < c \<and> block_size (block_storage fs) \<noteq> 0
        \<and> int (length (get_blocks d)) * int (block_size (block_storage fs)) \<le> p
        \<and> p < c \<and> 0 < sz
        \<longrightarrow>
          read fd sz (fst (seek fd p (fst (write_file fd [] (fst (seek fd c fs)))))) =
            (fst (seek fd p (fst (write_file fd [] (fst (seek fd c fs))))), Inl IndexError)"
    using empty_write_then_read[OF h, of c p sz] by blast
  from a b c d show "write_file fd [] fs =
       (fs\<lparr>file_descriptors :=
             (file_descriptors fs)[k := Some (d\<lparr>size_f := max (size_f d) offset\<rparr>)]\<rparr>,
        Inr ())
     \<and> write_file fd [] (fst (seek fd c fs)) =
         (fs\<lparr>file_descriptors :=
               (file_descriptors fs)[k := Some (d\<lparr>size_f := max (size_f d) c\<rparr>)],
             open_files := AList.update fd (fd_index, c) (open_files fs)\<rparr>,
          Inr ())
     \<and> (size_f d < c \<longrightarrow>
          write_file fd [] (fst (seek fd c fs)) =
            (fs\<lparr>file_descriptors := (file_descriptors fs)[k := Some (d\<lparr>size_f := c\<rparr>)],
                open_files := AList.update fd (fd_index, c) (open_files fs)\<rparr>,
             Inr ()))
     \<and> (size_f d < c \<and> block_size (block_storage fs) \<noteq> 0
        \<and> int (length (get_blocks d)) * int (block_size (block_storage fs)) \<le> p
        \<and> p < c \<and> 0 < sz
        \<longrightarrow>
          read fd sz (fst (seek fd p (fst (write_file fd [] (fst (seek fd c fs)))))) =
            (fst (seek fd p (fst (write_file fd [] (fst (seek fd c fs))))), Inl IndexError))"
    by blast
qed

theorem C10_empty_write_grows_size_witness:
  "map_of (open_files (exec_calls [Create ''f'', Open ''f'', Write 0 ''abcdef'', Seek 0 2]
      (FileSystem_init 4 4 2))) 0 = Some (0, 2)
   \<and> map_option (\<lambda>d. (size_f d, get_blocks d))
        (file_descriptors (exec_calls [Create ''f'', Open ''f'', Write 0 ''abcdef'', Seek 0 2]
           (FileSystem_init 4 4 2)) ! 0) = Some (6, [0, 1])
   \<and> write_file 0 [] (exec_calls [Create ''f'', Open ''f'', Write 0 ''abcdef'', Seek 0 2]
        (FileSystem_init 4 4 2))
       = (exec_calls [Create ''f'', Open ''f'', Write 0 ''abcdef'', Seek 0 2]
            (FileSystem_init 4 4 2), Inr ())
   \<and> snd (write_file 0 []
            (fst (seek 0 9 (exec_calls [Create ''f'', Open ''f'', Write 0 ''abcdef'', Seek 0 2]
               (FileSystem_init 4 4 2))))) = Inr ()
   \<and> map_option (\<lambda>d. (size_f d, get_blocks d))
        (file_descriptors (fst (write_file 0 []
            (fst (seek 0 9 (exec_calls [Create ''f'', Open ''f'', Write 0 ''abcdef'', Seek 0 2]
               (FileSystem_init 4 4 2)))))) ! 0) = Some (9, [0, 1])
   \<and> block_storage (fst (write_file 0 []
            (fst (seek 0 9 (exec_calls [Create ''f'', Open ''f'', Write 0 ''abcdef'', Seek 0 2]
               (FileSystem_init 4 4 2))))))
       = block_storage (exec_calls [Create ''f'', Open ''f'', Write 0 ''abcdef'', Seek 0 2]
            (FileSystem_init 4 4 2))
   \<and> snd (read 0 1
            (fst (seek 0 8
               (fst (write_file 0 []
                  (fst (seek 0 9
                     (exec_calls [Create ''f'', Open ''f'', Write 0 ''abcdef'', Seek 0 2]
                        (FileSystem_init 4 4 2)))))))))
       = Inl IndexError"
proof -
  let ?F = "exec_calls [Create ''f'', Open ''f'', Write 0 ''abcdef'', Seek 0 2] (FileSystem_init 4 4 2)"
  let ?d = "\<lparr>file_type = ''regular'', hard_links = 1, size_f = 6,
            direct_blocks = [0, 1, - 1, - 1, - 1, - 1, - 1, - 1, - 1, - 1],
            indirect_block = - 1\<rparr>"
  have h1: "map_of (open_files ?F) 0 = Some (0, 2)" by code_simp
  have h2: "py_index (length (file_descriptors ?F)) 0 = Some 0" by code_simp
  have h3: "file_descriptors ?F ! 0 = Some ?d" by code_simp
  have h4: "size_f ?d < 9" by simp
  have h5: "block_size (block_storage ?F) \<noteq> 0" by code_simp
  have h6: "int (length (get_blocks ?d)) * int (block_size (block_storage ?F)) \<le> 8" by code_simp
  have h7: "(8::int) < 9" "(0::int) < 1" by simp_all
  have l: "length (file_descriptors ?F) = 2" by code_simp
  have gb: "get_blocks ?d = [0, 1]" by code_simp
  have same: "?F\<lparr>file_descriptors := (file_descriptors ?F)[0 := Some (?d\<lparr>size_f := max (size_f ?d) 2\<rparr>)]\<rparr> = ?F"
    by code_simp
  note t = C10_empty_write_grows_size[of ?F 0 0 2 0 ?d 9 8 1]
  from t h1 h2 h3 have t1: "write_file 0 [] ?F =
       (?F\<lparr>file_descriptors := (file_descriptors ?F)[0 := Some (?d\<lparr>size_f := max (size_f ?d) 2\<rparr>)]\<rparr>,
        Inr ())"
    by blast
  from t h1 h2 h3 h4 have t3: "write_file 0 [] (fst (seek 0 9 ?F)) =
            (?F\<lparr>file_descriptors := (file_descriptors ?F)[0 := Some (?d\<lparr>size_f := 9\<rparr>)],
                open_files := AList.update 0 (0, 9) (open_files ?F)\<rparr>,
             Inr ())"
    by blast
  from t h1 h2 h3 h4 h5 h6 h7 have t4:
    "read 0 1 (fst (seek 0 8 (fst (write_file 0 [] (fst (seek 0 9 ?F)))))) =
       (fst (seek 0 8 (fst (write_file 0 [] (fst (seek 0 9 ?F))))), Inl IndexError)"
    by blast
  have a: "write_file 0 [] ?F = (?F, Inr ())"
    unfolding t1 same ..
  have b: "snd (write_file 0 [] (fst (seek 0 9 ?F))) = Inr ()"
    by (simp only: t3 snd_conv)
  have c: "map_option (\<lambda>d. (size_f d, get_blocks d))
        (file_descriptors (fst (write_file 0 [] (fst (seek 0 9 ?F)))) ! 0) = Some (9, [0, 1])"
    unfolding t3 using l by (simp add: gb[unfolded get_blocks_def] get_blocks_def)
  have d: "block_storage (fst (write_file 0 [] (fst (seek 0 9 ?F)))) = block_storage ?F"
    unfolding t3 by simp
  have e: "snd (read 0 1 (fst (seek 0 8 (fst (write_file 0 [] (fst (seek 0 9 ?F))))))) = Inl IndexError"
    by (simp only: t4 snd_conv)
  have s6: "map_option (\<lambda>d. (size_f d, get_blocks d)) (file_descriptors ?F ! 0) = Some (6, [0, 1])"
    by (simp add: h3 gb[unfolded get_blocks_def] get_blocks_def)
  from h1 s6 a b c d e show ?thesis
    by blast
qed

end
